theory Spec2Isabelle
  imports Main
begin

section \<open>The knowledge-graph plugin: storage schema\<close>

text \<open>
  The plugin keeps its data in an embedded SQLite store with the tables
  \<open>entities\<close>, \<open>relationships\<close>, \<open>sessions\<close> and \<open>queries\<close>.  Each table is a list
  of rows in insertion (rowid) order.  A \<open>TEXT\<close> column that may hold \<open>NULL\<close> is a
  \<open>string option\<close>.  The timestamp columns are filled by \<open>datetime('now')\<close>, whose
  fixed-width text compares like the instant it denotes, so an instant is a
  natural number of seconds.  The \<open>queries\<close> table is written by \<open>knowledge_ask\<close>
  only and read by nothing; it is left out.
\<close>

record entity =
  e_id :: string
  e_type :: string
  e_name :: string
  e_content :: "string option"
  e_metadata :: "string option"
  e_project_path :: string
  e_created_at :: nat
  e_updated_at :: nat

record relationship =
  r_id :: string
  r_source_id :: string
  r_target_id :: string
  r_relationship_type :: string
  r_metadata :: "string option"
  r_project_path :: string
  r_created_at :: nat

record session =
  s_id :: string
  s_project_path :: string
  s_start_time :: nat
  s_end_time :: "nat option"
  s_summary :: "string option"
  s_key_decisions :: "string option"
  s_files_modified :: "string option"
  s_context :: "string option"

record database =
  entities :: "entity list"
  relationships :: "relationship list"
  sessions :: "session list"

text \<open>
  The state of one plugin instance: the store, the \<open>projectPath\<close> fixed when the
  plugin is created, and the mutable \<open>currentSessionId\<close> (\<open>None\<close> is \<open>null\<close>).
\<close>

record plugin =
  db :: database
  projectPath :: string
  currentSessionId :: "string option"

text \<open>
  What a call reads from outside the plugin: \<open>process.cwd()\<close>, the value the
  next \<open>uuidv4()\<close> returns and the instant \<open>datetime('now')\<close> denotes.
\<close>

record world =
  w_cwd :: string
  w_uuid :: string
  w_now :: nat

text \<open>The second argument of a tool's \<open>execute\<close>: \<open>{ directory, worktree }\<close>.\<close>

record tool_ctx =
  directory :: "string option"
  worktree :: "string option"

datatype error =
    Error string
  | SqliteConstraint
  | SqliteMismatch
  | LikePatternTooComplex
  | SyntaxError

subsection \<open>JavaScript and SQL helpers\<close>

text \<open>\<open>a || b\<close> on an optional string: \<open>undefined\<close> and the empty string are falsy.\<close>

fun js_or :: "string option \<Rightarrow> string \<Rightarrow> string" where
  "js_or None d = d"
| "js_or (Some s) d = (if s = [] then d else s)"

text \<open>
  \<open>a || null\<close>: the string when it is truthy, \<open>null\<close> otherwise.  A test \<open>if (a)\<close>
  followed by uses of \<open>a\<close> is a case distinction on it.
\<close>

fun js_or_null :: "string option \<Rightarrow> string option" where
  "js_or_null None = None"
| "js_or_null (Some s) = (if s = [] then None else Some s)"

text \<open>The truth value of an optional string in a condition.\<close>

fun truthy :: "string option \<Rightarrow> bool" where
  "truthy None = False"
| "truthy (Some s) = (s \<noteq> [])"

definition getProjectPath :: "string \<Rightarrow> string option \<Rightarrow> string option \<Rightarrow> string" where
  "getProjectPath cwd wt dir = js_or wt (js_or dir cwd)"

definition projPath_of :: "world \<Rightarrow> tool_ctx \<Rightarrow> string" where
  "projPath_of w ctx = getProjectPath (w_cwd w) (worktree ctx) (directory ctx)"

text \<open>
  \<open>INSERT INTO entities\<close> and \<open>INSERT INTO relationships\<close>: the \<open>id\<close> column is
  the primary key, so inserting a second row with an id already present is
  refused and the table stays as it was.
\<close>

definition insert_entity :: "entity \<Rightarrow> database \<Rightarrow> error + database" where
  "insert_entity e d =
     (if e_id e \<in> set (map e_id (entities d)) then Inl SqliteConstraint
      else Inr (d\<lparr>entities := entities d @ [e]\<rparr>))"

definition insert_relationship :: "relationship \<Rightarrow> database \<Rightarrow> error + database" where
  "insert_relationship r d =
     (if r_id r \<in> set (map r_id (relationships d)) then Inl SqliteConstraint
      else Inr (d\<lparr>relationships := relationships d @ [r]\<rparr>))"

section \<open>Tools: \<open>knowledge_add_entity\<close>, \<open>knowledge_connect\<close>, \<open>knowledge_graph\<close>\<close>

record add_entity_result =
  ae_success :: bool
  ae_entityId :: string
  ae_name :: string
  ae_type :: string

definition knowledge_add_entity ::
  "world \<Rightarrow> string \<Rightarrow> string \<Rightarrow> string \<Rightarrow> string option \<Rightarrow> tool_ctx \<Rightarrow> plugin
     \<Rightarrow> (error + add_entity_result) \<times> plugin" where
  "knowledge_add_entity w name type content metadata ctx st =
     (let projPath = projPath_of w ctx;
          id = w_uuid w
      in case insert_entity
                \<lparr>e_id = id, e_type = type, e_name = name, e_content = Some content,
                 e_metadata = js_or_null metadata, e_project_path = projPath,
                 e_created_at = w_now w, e_updated_at = w_now w\<rparr> (db st) of
           Inl err \<Rightarrow> (Inl err, st)
         | Inr d \<Rightarrow>
             (Inr \<lparr>ae_success = True, ae_entityId = id, ae_name = name, ae_type = type\<rparr>,
              st\<lparr>db := d\<rparr>))"

text \<open>
  The lookup of \<open>knowledge_connect\<close>:
  \<^verbatim>\<open>SELECT id FROM entities WHERE project_path = ? AND (id = ? OR name = ?)\<close>
  run with \<open>.get\<close>, which gives the first row or \<open>undefined\<close>.  The third
  parameter is compared to \<open>name\<close> with \<open>=\<close>.
\<close>

definition select_id_by_id_or_name ::
  "database \<Rightarrow> string \<Rightarrow> string \<Rightarrow> string \<Rightarrow> string option" where
  "select_id_by_id_or_name d projPath p_id p_name =
     map_option e_id
       (find (\<lambda>e. e_project_path e = projPath \<and> (e_id e = p_id \<or> e_name e = p_name))
          (entities d))"

text \<open>How \<open>knowledge_connect\<close> resolves one identifier: the name parameter is \<open>`%${ident}%`\<close>.\<close>

definition resolve :: "database \<Rightarrow> string \<Rightarrow> string \<Rightarrow> string option" where
  "resolve d projPath ident =
     select_id_by_id_or_name d projPath ident (''%'' @ ident @ ''%'')"

record connect_result =
  cn_success :: bool
  cn_relationshipId :: string
  cn_from :: string
  cn_to :: string
  cn_type :: string

definition knowledge_connect ::
  "world \<Rightarrow> string \<Rightarrow> string \<Rightarrow> string \<Rightarrow> tool_ctx \<Rightarrow> plugin
     \<Rightarrow> (error + connect_result) \<times> plugin" where
  "knowledge_connect w source target relationship ctx st =
     (let projPath = projPath_of w ctx;
          sourceEntity = resolve (db st) projPath source;
          targetEntity = resolve (db st) projPath target
      in case (sourceEntity, targetEntity) of
           (Some sid, Some tid) \<Rightarrow>
             (let id = w_uuid w
              in case insert_relationship
                        \<lparr>r_id = id, r_source_id = sid, r_target_id = tid,
                         r_relationship_type = relationship, r_metadata = None,
                         r_project_path = projPath, r_created_at = w_now w\<rparr> (db st) of
                   Inl err \<Rightarrow> (Inl err, st)
                 | Inr d \<Rightarrow>
                     (Inr \<lparr>cn_success = True, cn_relationshipId = id, cn_from = source,
                           cn_to = target, cn_type = relationship\<rparr>,
                      st\<lparr>db := d\<rparr>))
         | _ \<Rightarrow>
             (Inl (Error (''Could not find entities: ''
                    @ (if sourceEntity = None then source else [])
                    @ '' ''
                    @ (if targetEntity = None then target else []))),
              st))"

record node =
  n_id :: string
  n_label :: string
  n_type :: string
  n_metadata :: "string option"

record edge =
  g_id :: string
  g_source :: string
  g_target :: string
  g_type :: string

record graph =
  nodes :: "node list"
  edges :: "edge list"

text \<open>
  The join of \<open>knowledge_graph\<close>: one row for each relationship of the project and
  each pair of entities carrying its source id and its target id.
\<close>

definition select_relationships_joined ::
  "database \<Rightarrow> string \<Rightarrow> (relationship \<times> string \<times> string) list" where
  "select_relationships_joined d projPath =
     [(r, e_name s, e_name t).
        r \<leftarrow> relationships d,
        s \<leftarrow> entities d, r_source_id r = e_id s,
        t \<leftarrow> entities d, r_target_id r = e_id t,
        r_project_path r = projPath]"

definition knowledge_graph ::
  "world \<Rightarrow> string option \<Rightarrow> int option \<Rightarrow> tool_ctx \<Rightarrow> plugin \<Rightarrow> (error + graph) \<times> plugin" where
  "knowledge_graph w entityType depth ctx st =
     (let projPath = projPath_of w ctx;
          ents = filter (\<lambda>e. e_project_path e = projPath
                   \<and> (if truthy entityType then Some (e_type e) = entityType else True))
                   (entities (db st));
          rels = select_relationships_joined (db st) projPath
      in (Inr \<lparr>nodes = map (\<lambda>e. \<lparr>n_id = e_id e, n_label = e_name e, n_type = e_type e,
                                   n_metadata = e_metadata e\<rparr>) ents,
               edges = map (\<lambda>(r, source_name, target_name).
                              \<lparr>g_id = r_id r, g_source = source_name, g_target = target_name,
                               g_type = r_relationship_type r\<rparr>) rels\<rparr>,
          st))"

section \<open>Tool: \<open>knowledge_search\<close>\<close>

text \<open>
  SQLite's \<open>LIKE\<close> compares a pattern with a text.  In the pattern \<open>%\<close> stands for
  any run of characters, \<open>_\<close> for any one character, and every other character for
  itself, where the letters \<open>A\<close> to \<open>Z\<close> and \<open>a\<close> to \<open>z\<close> are compared without case.
  There is no escape character unless an \<open>ESCAPE\<close> clause names one, and the queries
  here have none.  \<open>like_match\<close> is this comparison on a pattern and a text that
  hold no NUL character.
\<close>

definition ascii_lower :: "char \<Rightarrow> char" where
  "ascii_lower c =
     (if (65::nat) \<le> of_char c \<and> of_char c \<le> (90::nat) then char_of (of_char c + (32::nat))
      else c)"

fun like_match :: "string \<Rightarrow> string \<Rightarrow> bool" where
  "like_match [] s = (s = [])"
| "like_match (p # ps) s =
     (if p = CHR ''%'' then
        (like_match ps s \<or> (case s of [] \<Rightarrow> False | c # cs \<Rightarrow> like_match (p # ps) cs))
      else
        (case s of
           [] \<Rightarrow> False
         | c # cs \<Rightarrow> (p = CHR ''_'' \<or> ascii_lower p = ascii_lower c) \<and> like_match ps cs))"

text \<open>
  The \<open>LIKE\<close> function reads its two arguments as C strings: each ends at its
  first NUL character, whatever follows it in the stored value.
\<close>

definition c_string :: "string \<Rightarrow> string" where
  "c_string s = takeWhile (\<lambda>c. c \<noteq> CHR 0x00) s"

text \<open>
  The length SQLite measures a pattern by: its bytes in UTF-8, the whole value,
  NUL characters and what follows them included.  A character below \<open>0x80\<close> is
  one byte, one from \<open>0x80\<close> to \<open>0xFF\<close> is two.
\<close>

definition utf8_bytes :: "string \<Rightarrow> nat" where
  "utf8_bytes s = sum_list (map (\<lambda>c. if of_char c < (128::nat) then 1 else 2) s)"

definition like_pattern_limit :: nat where
  "like_pattern_limit = 50000"

text \<open>\<open>x LIKE p\<close> on two values that hold no error: \<open>NULL\<close> matches nothing.\<close>

fun like_text :: "string \<Rightarrow> string option \<Rightarrow> bool" where
  "like_text p None = False"
| "like_text p (Some s) = like_match (c_string p) (c_string s)"

text \<open>
  \<open>x LIKE ?\<close> as the statement evaluates it on one row: a pattern longer than
  the limit makes the function fail (\<open>LIKE or GLOB pattern too complex\<close>), before
  it looks at the text.
\<close>

definition sqlite_like :: "string \<Rightarrow> string option \<Rightarrow> error + bool" where
  "sqlite_like p text =
     (if like_pattern_limit < utf8_bytes p then Inl LikePatternTooComplex
      else Inr (like_text p text))"

text \<open>
  \<open>ORDER BY key DESC\<close> as a stable sort on the negated key.
\<close>

definition order_by_desc :: "('a \<Rightarrow> nat) \<Rightarrow> 'a list \<Rightarrow> 'a list" where
  "order_by_desc key xs = sort_key (\<lambda>x. - int (key x)) xs"

text \<open>
  A JavaScript \<open>number\<close>, as far as \<open>LIMIT\<close> tells numbers apart: one whose value
  is an integer, or any other one (a fraction, \<open>NaN\<close>, an infinity).  A default
  parameter value \<open>limit = 10\<close> replaces \<open>undefined\<close>.
\<close>

datatype js_number =
    JsInt int
  | JsOther

fun default_limit :: "js_number option \<Rightarrow> js_number" where
  "default_limit None = JsInt 10"
| "default_limit (Some n) = n"

text \<open>
  \<open>LIMIT ?\<close> with a number bound to the parameter.  The driver binds a number
  as a double, and \<open>LIMIT\<close> wants an integer: SQLite turns the double into a
  64-bit integer when that loses nothing and the integer is neither the least nor
  the greatest one, and otherwise the statement fails with \<open>SQLITE_MISMATCH\<close>
  before it reads a row.
\<close>

fun bind_limit :: "js_number \<Rightarrow> error + int" where
  "bind_limit (JsInt n) =
     (if - 9223372036854775808 < n \<and> n < 9223372036854775807 then Inr n
      else Inl SqliteMismatch)"
| "bind_limit JsOther = Inl SqliteMismatch"

text \<open>The rows \<open>LIMIT n\<close> keeps: SQLite reads a negative limit as no limit.\<close>

definition limit_rows :: "int \<Rightarrow> 'a list \<Rightarrow> 'a list" where
  "limit_rows n xs = (if n < 0 then xs else take (nat n) xs)"

definition sql_limit :: "js_number \<Rightarrow> 'a list \<Rightarrow> error + 'a list" where
  "sql_limit l xs =
     (case bind_limit l of
        Inl err \<Rightarrow> Inl err
      | Inr n \<Rightarrow> Inr (limit_rows n xs))"

record search_row =
  sr_id :: string
  sr_type :: string
  sr_name :: string
  sr_content :: "string option"
  sr_updated :: nat

record search_result =
  sq_query :: string
  sq_count :: nat
  sq_results :: "search_row list"

definition search_row_of :: "entity \<Rightarrow> search_row" where
  "search_row_of r =
     \<lparr>sr_id = e_id r, sr_type = e_type r, sr_name = e_name r,
      sr_content = map_option (take 500) (e_content r), sr_updated = e_updated_at r\<rparr>"

text \<open>
  The \<open>WHERE\<close> clause of the search on one row,
  \<^verbatim>\<open>project_path = ? AND (name LIKE ? OR content LIKE ?) [AND type = ?]\<close>
  its terms taken from left to right: a row of another project is passed over
  before \<open>LIKE\<close> is called, and \<open>content LIKE ?\<close> is not asked once the name matched.
\<close>

definition search_where :: "string \<Rightarrow> string \<Rightarrow> string option \<Rightarrow> entity \<Rightarrow> error + bool" where
  "search_where projPath pattern type e =
     (if e_project_path e \<noteq> projPath then Inr False
      else
        (case sqlite_like pattern (Some (e_name e)) of
           Inl err \<Rightarrow> Inl err
         | Inr by_name \<Rightarrow>
             (case (if by_name then Inr True else sqlite_like pattern (e_content e)) of
                Inl err \<Rightarrow> Inl err
              | Inr m \<Rightarrow>
                  Inr (m \<and> (if truthy type then Some (e_type e) = type else True)))))"

text \<open>The rows a condition keeps, where the condition may fail: the first failure ends the scan.\<close>

fun filter_throwing :: "('a \<Rightarrow> error + bool) \<Rightarrow> 'a list \<Rightarrow> error + 'a list" where
  "filter_throwing f [] = Inr []"
| "filter_throwing f (x # xs) =
     (case f x of
        Inl err \<Rightarrow> Inl err
      | Inr keep \<Rightarrow>
          (case filter_throwing f xs of
             Inl err \<Rightarrow> Inl err
           | Inr ys \<Rightarrow> Inr (if keep then x # ys else ys)))"

text \<open>
  The statement first settles its limit, and with a limit of 0 it ends there,
  without reading a row; otherwise it scans, sorts and cuts.
\<close>

definition knowledge_search ::
  "world \<Rightarrow> string \<Rightarrow> string option \<Rightarrow> js_number option \<Rightarrow> tool_ctx \<Rightarrow> plugin
     \<Rightarrow> (error + search_result) \<times> plugin" where
  "knowledge_search w query type limit ctx st =
     (let projPath = projPath_of w ctx;
          pattern = ''%'' @ query @ ''%''
      in case bind_limit (default_limit limit) of
           Inl err \<Rightarrow> (Inl err, st)
         | Inr n \<Rightarrow>
             (case (if n = 0 then Inr []
                    else filter_throwing (search_where projPath pattern type) (entities (db st))) of
                Inl err \<Rightarrow> (Inl err, st)
              | Inr rows \<Rightarrow>
                  (let results = limit_rows n (order_by_desc e_updated_at rows)
                   in (Inr \<lparr>sq_query = query, sq_count = length results,
                            sq_results = map search_row_of results\<rparr>,
                       st))))"

text \<open>
  The words of the specification, to compare \<open>LIKE\<close> with: \<open>q\<close> is a substring of
  \<open>s\<close>, letters compared without case.
\<close>

fun ci_prefix :: "string \<Rightarrow> string \<Rightarrow> bool" where
  "ci_prefix [] s = True"
| "ci_prefix (q # qs) [] = False"
| "ci_prefix (q # qs) (c # cs) = (ascii_lower q = ascii_lower c \<and> ci_prefix qs cs)"

fun ci_substring :: "string \<Rightarrow> string \<Rightarrow> bool" where
  "ci_substring q [] = (q = [])"
| "ci_substring q (c # cs) = (ci_prefix q (c # cs) \<or> ci_substring q cs)"

definition wildcard_free :: "string \<Rightarrow> bool" where
  "wildcard_free q = (CHR ''%'' \<notin> set q \<and> CHR ''_'' \<notin> set q)"

section \<open>JSON text\<close>

text \<open>
  \<open>JSON.stringify\<close> and \<open>JSON.parse\<close> are built into the language; the session
  tools depend on what they do, so both are written out.  A string is a list of
  8-bit characters throughout; a number keeps its literal text.
\<close>

datatype json =
    JNull
  | JBool bool
  | JNum string
  | JStr string
  | JArr "json list"
  | JObj "(string \<times> json) list"

definition dquote :: char where
  "dquote = CHR 0x22"

definition backslash :: char where
  "backslash = CHR 0x5C"

definition hex_digit :: "nat \<Rightarrow> char" where
  "hex_digit n = (if n < 10 then char_of (48 + n) else char_of (87 + n))"

text \<open>
  \<open>QuoteJSONString\<close>: the quote, the backslash and the control characters are
  escaped, the five with a short escape by it and the others as \<open>\u00XX\<close>.
\<close>

definition quote_char :: "char \<Rightarrow> string" where
  "quote_char c =
     (if c = CHR 0x08 then [backslash, CHR ''b'']
      else if c = CHR 0x09 then [backslash, CHR ''t'']
      else if c = CHR 0x0A then [backslash, CHR ''n'']
      else if c = CHR 0x0C then [backslash, CHR ''f'']
      else if c = CHR 0x0D then [backslash, CHR ''r'']
      else if c = dquote then [backslash, dquote]
      else if c = backslash then [backslash, backslash]
      else if of_char c < (32::nat) then
        [backslash, CHR ''u'', CHR ''0'', CHR ''0'',
         hex_digit (of_char c div 16), hex_digit (of_char c mod 16)]
      else [c])"

definition quote_chars :: "string \<Rightarrow> string" where
  "quote_chars s = concat (map quote_char s)"

definition quote_string :: "string \<Rightarrow> string" where
  "quote_string s = dquote # quote_chars s @ [dquote]"

fun JSON_stringify :: "json \<Rightarrow> string"
  and stringify_elements :: "json list \<Rightarrow> string"
  and stringify_members :: "(string \<times> json) list \<Rightarrow> string" where
  "JSON_stringify JNull = ''null''"
| "JSON_stringify (JBool b) = (if b then ''true'' else ''false'')"
| "JSON_stringify (JNum n) = n"
| "JSON_stringify (JStr s) = quote_string s"
| "JSON_stringify (JArr vs) = ''['' @ stringify_elements vs @ '']''"
| "JSON_stringify (JObj ms) = ''{'' @ stringify_members ms @ ''}''"
| "stringify_elements [] = []"
| "stringify_elements [v] = JSON_stringify v"
| "stringify_elements (v # v' # vs) = JSON_stringify v @ '','' @ stringify_elements (v' # vs)"
| "stringify_members [] = []"
| "stringify_members [(k, v)] = quote_string k @ '':'' @ JSON_stringify v"
| "stringify_members ((k, v) # m # ms) =
     quote_string k @ '':'' @ JSON_stringify v @ '','' @ stringify_members (m # ms)"

subsection \<open>\<open>JSON.parse\<close>\<close>

definition is_ws :: "char \<Rightarrow> bool" where
  "is_ws c = (c = CHR 0x20 \<or> c = CHR 0x09 \<or> c = CHR 0x0A \<or> c = CHR 0x0D)"

definition skip_ws :: "string \<Rightarrow> string" where
  "skip_ws cs = dropWhile is_ws cs"

definition is_digit :: "char \<Rightarrow> bool" where
  "is_digit c = ((48::nat) \<le> of_char c \<and> of_char c \<le> (57::nat))"

definition hex_val :: "char \<Rightarrow> nat option" where
  "hex_val c =
     (let n = (of_char c :: nat)
      in if 48 \<le> n \<and> n \<le> 57 then Some (n - 48)
         else if 97 \<le> n \<and> n \<le> 102 then Some (n - 87)
         else if 65 \<le> n \<and> n \<le> 70 then Some (n - 55)
         else None)"

definition hex4 :: "char \<Rightarrow> char \<Rightarrow> char \<Rightarrow> char \<Rightarrow> nat option" where
  "hex4 a b c d =
     (case (hex_val a, hex_val b, hex_val c, hex_val d) of
        (Some x, Some y, Some z, Some u) \<Rightarrow> Some (((x * 16 + y) * 16 + z) * 16 + u)
      | _ \<Rightarrow> None)"

text \<open>The character a short escape \<open>\e\<close> stands for.\<close>

definition unescape :: "char \<Rightarrow> char option" where
  "unescape e =
     (if e = dquote then Some dquote
      else if e = backslash then Some backslash
      else if e = CHR ''/'' then Some CHR ''/''
      else if e = CHR ''b'' then Some (CHR 0x08)
      else if e = CHR ''f'' then Some (CHR 0x0C)
      else if e = CHR ''n'' then Some (CHR 0x0A)
      else if e = CHR ''r'' then Some (CHR 0x0D)
      else if e = CHR ''t'' then Some (CHR 0x09)
      else None)"

definition cons_fst :: "'a \<Rightarrow> ('a list \<times> 'b) option \<Rightarrow> ('a list \<times> 'b) option" where
  "cons_fst x r = map_option (\<lambda>(xs, rest). (x # xs, rest)) r"

text \<open>
  The characters of a string after its opening quote, up to the closing one:
  the decoded string and the text that follows.  A code unit \<open>\uXXXX\<close> above
  \<open>0xFF\<close> has no place in an 8-bit string; it is read and its low byte kept.
\<close>

fun parse_chars :: "string \<Rightarrow> (string \<times> string) option" where
  "parse_chars [] = None"
| "parse_chars (c # cs) =
     (if c = dquote then Some ([], cs)
      else if c = backslash then
        (case cs of
           [] \<Rightarrow> None
         | e # cs1 \<Rightarrow>
             if e = CHR ''u'' then
               (case cs1 of
                  h1 # h2 # h3 # h4 # cs2 \<Rightarrow>
                    (case hex4 h1 h2 h3 h4 of
                       None \<Rightarrow> None
                     | Some n \<Rightarrow> cons_fst (char_of n) (parse_chars cs2))
                | _ \<Rightarrow> None)
             else
               (case unescape e of
                  None \<Rightarrow> None
                | Some d \<Rightarrow> cons_fst d (parse_chars cs1)))
      else if of_char c < (32::nat) then None
      else cons_fst c (parse_chars cs))"

text \<open>
  A number: an optional minus, \<open>0\<close> or a digit run not starting with \<open>0\<close>, an
  optional fraction, an optional exponent.
\<close>

definition parse_digits1 :: "string \<Rightarrow> (string \<times> string) option" where
  "parse_digits1 cs =
     (if takeWhile is_digit cs = [] then None
      else Some (takeWhile is_digit cs, dropWhile is_digit cs))"

definition parse_int_part :: "string \<Rightarrow> (string \<times> string) option" where
  "parse_int_part cs =
     (case cs of
        [] \<Rightarrow> None
      | d # r \<Rightarrow> if d = CHR ''0'' then Some ([d], r) else parse_digits1 cs)"

definition parse_frac :: "string \<Rightarrow> (string \<times> string) option" where
  "parse_frac cs =
     (case cs of
        [] \<Rightarrow> Some ([], cs)
      | d # r \<Rightarrow> if d = CHR ''.'' then cons_fst d (parse_digits1 r) else Some ([], cs))"

definition parse_exp :: "string \<Rightarrow> (string \<times> string) option" where
  "parse_exp cs =
     (case cs of
        [] \<Rightarrow> Some ([], cs)
      | e # r \<Rightarrow>
          if e = CHR ''e'' \<or> e = CHR ''E'' then
            (case r of
               [] \<Rightarrow> None
             | sg # r1 \<Rightarrow>
                 if sg = CHR ''+'' \<or> sg = CHR ''-'' then cons_fst e (cons_fst sg (parse_digits1 r1))
                 else cons_fst e (parse_digits1 r))
          else Some ([], cs))"

definition parse_unsigned :: "string \<Rightarrow> (string \<times> string) option" where
  "parse_unsigned cs =
     (case parse_int_part cs of
        None \<Rightarrow> None
      | Some (i, r1) \<Rightarrow>
          (case parse_frac r1 of
             None \<Rightarrow> None
           | Some (f, r2) \<Rightarrow>
               (case parse_exp r2 of
                  None \<Rightarrow> None
                | Some (x, r3) \<Rightarrow> Some (i @ f @ x, r3))))"

definition parse_number :: "string \<Rightarrow> (string \<times> string) option" where
  "parse_number cs =
     (case cs of
        [] \<Rightarrow> None
      | c # r \<Rightarrow> if c = CHR ''-'' then cons_fst c (parse_unsigned r) else parse_unsigned cs)"

definition parse_literal :: "string \<Rightarrow> json \<Rightarrow> string \<Rightarrow> (json \<times> string) option" where
  "parse_literal lit v cs =
     (if take (length lit) cs = lit then Some (v, drop (length lit) cs) else None)"

text \<open>
  A value, the elements of an array after \<open>[\<close> and the members of an object
  after \<open>{\<close>.  The three call each other; the first argument bounds the number
  of calls still allowed, and every call but the first comes after at least one
  character was read.
\<close>

fun parse_value :: "nat \<Rightarrow> string \<Rightarrow> (json \<times> string) option"
  and parse_elements :: "nat \<Rightarrow> string \<Rightarrow> (json list \<times> string) option"
  and parse_members :: "nat \<Rightarrow> string \<Rightarrow> ((string \<times> json) list \<times> string) option" where
  "parse_value 0 cs = None"
| "parse_value (Suc n) cs =
     (case cs of
        [] \<Rightarrow> None
      | c # r \<Rightarrow>
          if c = CHR ''{'' then
            (case skip_ws r of
               [] \<Rightarrow> None
             | c1 # r1 \<Rightarrow>
                 if c1 = CHR ''}'' then Some (JObj [], r1)
                 else map_option (\<lambda>(ms, q). (JObj ms, q)) (parse_members n (c1 # r1)))
          else if c = CHR ''['' then
            (case skip_ws r of
               [] \<Rightarrow> None
             | c1 # r1 \<Rightarrow>
                 if c1 = CHR '']'' then Some (JArr [], r1)
                 else map_option (\<lambda>(vs, q). (JArr vs, q)) (parse_elements n (c1 # r1)))
          else if c = dquote then map_option (\<lambda>(s, q). (JStr s, q)) (parse_chars r)
          else if c = CHR ''t'' then parse_literal ''true'' (JBool True) cs
          else if c = CHR ''f'' then parse_literal ''false'' (JBool False) cs
          else if c = CHR ''n'' then parse_literal ''null'' JNull cs
          else map_option (\<lambda>(s, q). (JNum s, q)) (parse_number cs))"
| "parse_elements 0 cs = None"
| "parse_elements (Suc n) cs =
     (case parse_value n cs of
        None \<Rightarrow> None
      | Some (v, r) \<Rightarrow>
          (case skip_ws r of
             [] \<Rightarrow> None
           | c # r1 \<Rightarrow>
               if c = CHR '','' then cons_fst v (parse_elements n (skip_ws r1))
               else if c = CHR '']'' then Some ([v], r1)
               else None))"
| "parse_members 0 cs = None"
| "parse_members (Suc n) cs =
     (case cs of
        [] \<Rightarrow> None
      | c # r \<Rightarrow>
          if c = dquote then
            (case parse_chars r of
               None \<Rightarrow> None
             | Some (k, r1) \<Rightarrow>
                 (case skip_ws r1 of
                    [] \<Rightarrow> None
                  | c2 # r2 \<Rightarrow>
                      if c2 = CHR '':'' then
                        (case parse_value n (skip_ws r2) of
                           None \<Rightarrow> None
                         | Some (v, r3) \<Rightarrow>
                             (case skip_ws r3 of
                                [] \<Rightarrow> None
                              | c4 # r4 \<Rightarrow>
                                  if c4 = CHR '','' then
                                    cons_fst (k, v) (parse_members n (skip_ws r4))
                                  else if c4 = CHR ''}'' then Some ([(k, v)], r4)
                                  else None))
                      else None))
          else None)"

definition JSON_parse :: "string \<Rightarrow> json option" where
  "JSON_parse s =
     (case parse_value (Suc (length s)) (skip_ws s) of
        None \<Rightarrow> None
      | Some (v, rest) \<Rightarrow> if skip_ws rest = [] then Some v else None)"

section \<open>Session tools and the session-deleted handler\<close>

record summarize_result =
  sm_success :: bool
  sm_sessionId :: string

text \<open>
  The statement of \<open>knowledge_summarize_session\<close>:
  \<^verbatim>\<open>INSERT INTO sessions (id, project_path, summary, key_decisions, files_modified, context)
  VALUES (?, ?, ?, ?, ?, ?)
  ON CONFLICT(id) DO UPDATE SET summary = excluded.summary,
    key_decisions = excluded.key_decisions, files_modified = excluded.files_modified\<close>
  A new row takes \<open>start_time\<close> from its default and has no \<open>end_time\<close>.
\<close>

definition upsert_session ::
  "nat \<Rightarrow> string \<Rightarrow> string \<Rightarrow> string \<Rightarrow> string \<Rightarrow> string \<Rightarrow> string \<Rightarrow> database \<Rightarrow> database" where
  "upsert_session now sid projPath summary decisions files context d =
     (if sid \<in> set (map s_id (sessions d)) then
        d\<lparr>sessions :=
             map (\<lambda>s. if s_id s = sid
                        then s\<lparr>s_summary := Some summary, s_key_decisions := Some decisions,
                               s_files_modified := Some files\<rparr>
                        else s) (sessions d)\<rparr>
      else
        d\<lparr>sessions := sessions d @
             [\<lparr>s_id = sid, s_project_path = projPath, s_start_time = now, s_end_time = None,
               s_summary = Some summary, s_key_decisions = Some decisions,
               s_files_modified = Some files, s_context = Some context\<rparr>]\<rparr>)"

text \<open>\<open>if (!currentSessionId) currentSessionId = uuidv4()\<close>, then the value of the variable.\<close>

definition ensure_session_id :: "world \<Rightarrow> string option \<Rightarrow> string" where
  "ensure_session_id w cur = js_or cur (w_uuid w)"

definition knowledge_summarize_session ::
  "world \<Rightarrow> string \<Rightarrow> string \<Rightarrow> string \<Rightarrow> tool_ctx \<Rightarrow> plugin
     \<Rightarrow> (error + summarize_result) \<times> plugin" where
  "knowledge_summarize_session w summary decisions files ctx st =
     (let sid = ensure_session_id w (currentSessionId st);
          projPath = projPath_of w ctx;
          d = upsert_session (w_now w) sid projPath summary decisions files
                (JSON_stringify (JObj [(''summary'', JStr summary), (''decisions'', JStr decisions)]))
                (db st)
      in (Inr \<lparr>sm_success = True, sm_sessionId = sid\<rparr>,
          st\<lparr>db := d, currentSessionId := Some sid\<rparr>))"

record session_row =
  ss_id :: string
  ss_startTime :: nat
  ss_endTime :: "nat option"
  ss_summary :: "string option"
  ss_keyDecisions :: "string option"
  ss_filesModified :: json

record sessions_result =
  sl_count :: nat
  sl_sessions :: "session_row list"

text \<open>\<open>s.files_modified ? JSON.parse(s.files_modified) : []\<close>; a text that does not parse throws.\<close>

definition filesModified_of :: "string option \<Rightarrow> error + json" where
  "filesModified_of f =
     (case js_or_null f of
        None \<Rightarrow> Inr (JArr [])
      | Some text \<Rightarrow> (case JSON_parse text of None \<Rightarrow> Inl SyntaxError | Some v \<Rightarrow> Inr v))"

definition session_row_of :: "session \<Rightarrow> error + session_row" where
  "session_row_of s =
     (case filesModified_of (s_files_modified s) of
        Inl err \<Rightarrow> Inl err
      | Inr fm \<Rightarrow>
          Inr \<lparr>ss_id = s_id s, ss_startTime = s_start_time s, ss_endTime = s_end_time s,
               ss_summary = s_summary s, ss_keyDecisions = s_key_decisions s,
               ss_filesModified = fm\<rparr>)"

text \<open>\<open>xs.map(f)\<close> where \<open>f\<close> may throw: the first throw ends the whole map.\<close>

fun map_throwing :: "('a \<Rightarrow> error + 'b) \<Rightarrow> 'a list \<Rightarrow> error + 'b list" where
  "map_throwing f [] = Inr []"
| "map_throwing f (x # xs) =
     (case f x of
        Inl err \<Rightarrow> Inl err
      | Inr y \<Rightarrow> (case map_throwing f xs of Inl err \<Rightarrow> Inl err | Inr ys \<Rightarrow> Inr (y # ys)))"

text \<open>
  \<^verbatim>\<open>SELECT * FROM sessions WHERE project_path = ? ORDER BY start_time DESC LIMIT ?\<close>
\<close>

definition select_sessions :: "database \<Rightarrow> string \<Rightarrow> js_number \<Rightarrow> error + session list" where
  "select_sessions d projPath lim =
     sql_limit lim (order_by_desc s_start_time (filter (\<lambda>s. s_project_path s = projPath) (sessions d)))"

definition knowledge_sessions ::
  "world \<Rightarrow> js_number option \<Rightarrow> tool_ctx \<Rightarrow> plugin \<Rightarrow> (error + sessions_result) \<times> plugin" where
  "knowledge_sessions w limit ctx st =
     (let projPath = projPath_of w ctx
      in case select_sessions (db st) projPath (default_limit limit) of
           Inl err \<Rightarrow> (Inl err, st)
         | Inr rows \<Rightarrow>
             (case map_throwing session_row_of rows of
                Inl err \<Rightarrow> (Inl err, st)
              | Inr rs \<Rightarrow> (Inr \<lparr>sl_count = length rows, sl_sessions = rs\<rparr>, st)))"

text \<open>
  The \<open>output\<close> object of the session-deleted handler, as far as the handler
  writes it: the properties \<open>summary\<close> and \<open>decisions\<close>, \<open>None\<close> for \<open>undefined\<close>.
\<close>

record deleted_output =
  o_summary :: "json option"
  o_decisions :: "json option"

text \<open>
  Reading the property \<open>summary\<close> or \<open>decisions\<close> of a parsed value: on \<open>null\<close>
  it throws (the outer \<open>None\<close>); an object gives its last member of that name or
  \<open>undefined\<close>; a boolean, number, string or array has no such property.
\<close>

fun get_property :: "json \<Rightarrow> string \<Rightarrow> json option option" where
  "get_property JNull k = None"
| "get_property (JObj ms) k = Some (map_of (rev ms) k)"
| "get_property v k = Some None"

definition session_deleted :: "world \<Rightarrow> deleted_output \<Rightarrow> plugin \<Rightarrow> deleted_output \<times> plugin" where
  "session_deleted w output st =
     (case js_or_null (currentSessionId st) of
        None \<Rightarrow> (output, st)
      | Some sid \<Rightarrow>
          (let d = (db st)\<lparr>sessions :=
                      map (\<lambda>s. if s_id s = sid then s\<lparr>s_end_time := Some (w_now w)\<rparr> else s)
                        (sessions (db st))\<rparr>;
               st1 = st\<lparr>db := d\<rparr>
           in case find (\<lambda>s. s_id s = sid) (sessions d) of
                None \<Rightarrow> (output, st1)
              | Some session \<Rightarrow>
                  (case js_or_null (s_context session) of
                     None \<Rightarrow> (output, st1)
                   | Some text \<Rightarrow>
                       (case JSON_parse text of
                          None \<Rightarrow> (output, st1)
                        | Some context \<Rightarrow>
                            (case (get_property context ''summary'',
                                   get_property context ''decisions'') of
                               (Some sm, Some dc) \<Rightarrow>
                                 (output\<lparr>o_summary := sm, o_decisions := dc\<rparr>, st1)
                             | _ \<Rightarrow> (output, st1))))))"

section \<open>Auto-capture: the read branch of \<open>tool.execute.after\<close>, and \<open>file.edited\<close>\<close>

definition ends_with :: "string \<Rightarrow> string \<Rightarrow> bool" where
  "ends_with s suf = (length suf \<le> length s \<and> drop (length s - length suf) s = suf)"

definition file_type :: "string \<Rightarrow> string" where
  "file_type filePath =
     (if ends_with filePath ''.ts'' \<or> ends_with filePath ''.tsx'' then ''typescript''
      else if ends_with filePath ''.js'' \<or> ends_with filePath ''.jsx'' then ''javascript''
      else if ends_with filePath ''.json'' then ''config''
      else ''file'')"

text \<open>
  The handler's first \<open>if\<close>, entered when \<open>input.tool === 'read'\<close> and
  \<open>output.result\<close> is truthy; the second \<open>if\<close> asks for the tool \<open>bash\<close> and does not
  run on such an event.  \<open>path_normalize\<close> is \<open>path.normalize\<close> of the platform;
  \<open>filePath\<close> is \<open>input.args?.filePath\<close> and \<open>result\<close> is \<open>output.result\<close>.

  In the source as it stands that second \<open>if\<close> closes one brace too many (the
  \<open>}\<close> of line 226 has no partner inside the \<open>entities.forEach(\<close> call of line 197),
  so the module is not well-formed JavaScript until the brace is removed.  The
  defect lies wholly inside the \<open>bash\<close> branch.  Every handler and tool embedded
  here is well-formed by itself and reads the same after that repair; the theory
  is about the plugin with the brace removed.
\<close>

definition select_entity_by_name :: "database \<Rightarrow> string \<Rightarrow> string \<Rightarrow> entity option" where
  "select_entity_by_name d projPath name =
     find (\<lambda>e. e_project_path e = projPath \<and> e_name e = name) (entities d)"

definition tool_execute_after_read ::
  "(string \<Rightarrow> string) \<Rightarrow> world \<Rightarrow> string option \<Rightarrow> string option \<Rightarrow> plugin
     \<Rightarrow> (error + unit) \<times> plugin" where
  "tool_execute_after_read path_normalize w filePath result st =
     (case (js_or_null result, js_or_null filePath) of
        (Some res, Some fp) \<Rightarrow>
          (let normalizedPath = path_normalize fp
           in case select_entity_by_name (db st) (projectPath st) normalizedPath of
                Some existing \<Rightarrow> (Inr (), st)
              | None \<Rightarrow>
                  (case insert_entity
                          \<lparr>e_id = w_uuid w, e_type = file_type fp, e_name = normalizedPath,
                           e_content = Some (take 1000 res), e_metadata = None,
                           e_project_path = projectPath st,
                           e_created_at = w_now w, e_updated_at = w_now w\<rparr> (db st) of
                     Inl err \<Rightarrow> (Inl err, st)
                   | Inr d \<Rightarrow> (Inr (), st\<lparr>db := d\<rparr>)))
      | _ \<Rightarrow> (Inr (), st))"

definition file_edited :: "(string \<Rightarrow> string) \<Rightarrow> world \<Rightarrow> string \<Rightarrow> plugin \<Rightarrow> plugin" where
  "file_edited path_normalize w filePath st =
     (let normalizedPath = path_normalize filePath
      in case select_entity_by_name (db st) (projectPath st) normalizedPath of
           Some existingEntity \<Rightarrow>
             st\<lparr>db := (db st)\<lparr>entities :=
                   map (\<lambda>e. if e_id e = e_id existingEntity then e\<lparr>e_updated_at := w_now w\<rparr> else e)
                     (entities (db st))\<rparr>\<rparr>
         | None \<Rightarrow> st)"

section \<open>Properties of a store\<close>

text \<open>
  The constraints the schema declares: \<open>entities.id\<close> is a primary key, and the
  \<open>source_id\<close> and \<open>target_id\<close> of a relationship reference an entity.
\<close>

definition keys_ok :: "database \<Rightarrow> bool" where
  "keys_ok d =
     (distinct (map e_id (entities d))
      \<and> list_all (\<lambda>r. r_source_id r \<in> set (map e_id (entities d))
                     \<and> r_target_id r \<in> set (map e_id (entities d))) (relationships d))"

text \<open>
  The edge a relationship stands for: its id and type, with the names of the
  entities its source and target ids denote.
\<close>

definition name_of_id :: "database \<Rightarrow> string \<Rightarrow> string option" where
  "name_of_id d i = map_option e_name (find (\<lambda>e. e_id e = i) (entities d))"

definition edge_of :: "database \<Rightarrow> relationship \<Rightarrow> edge option" where
  "edge_of d r =
     (case (name_of_id d (r_source_id r), name_of_id d (r_target_id r)) of
        (Some sn, Some tn) \<Rightarrow>
          Some \<lparr>g_id = r_id r, g_source = sn, g_target = tn, g_type = r_relationship_type r\<rparr>
      | _ \<Rightarrow> None)"

text \<open>The payload of a graph export, when there is one.\<close>

definition graph_of :: "(error + graph) \<times> plugin \<Rightarrow> graph option" where
  "graph_of res = (case fst res of Inl err \<Rightarrow> None | Inr g \<Rightarrow> Some g)"

text \<open>
  What the \<open>WHERE\<close> clause of the search says of a row when \<open>LIKE\<close> does not fail,
  and the session rows the listing selects for a limit that SQLite accepted.
\<close>

definition search_matches :: "string \<Rightarrow> string \<Rightarrow> string option \<Rightarrow> entity \<Rightarrow> bool" where
  "search_matches projPath pattern type e =
     (e_project_path e = projPath
      \<and> (like_text pattern (Some (e_name e)) \<or> like_text pattern (e_content e))
      \<and> (if truthy type then Some (e_type e) = type else True))"

definition selected_sessions :: "database \<Rightarrow> string \<Rightarrow> int \<Rightarrow> session list" where
  "selected_sessions d projPath n =
     limit_rows n (order_by_desc s_start_time (filter (\<lambda>s. s_project_path s = projPath) (sessions d)))"

text \<open>
  A session row whose \<open>files_modified\<close> is a non-empty text that \<open>JSON.parse\<close>
  refuses.
\<close>

definition unparsable :: "session \<Rightarrow> bool" where
  "unparsable s =
     (case s_files_modified s of None \<Rightarrow> False | Some f \<Rightarrow> f \<noteq> [] \<and> JSON_parse f = None)"

text \<open>
  A bound \<open>n\<close> on the calls of a parser \<open>f\<close> is enough when a parse that succeeds
  with it reads at least one character and succeeds as well with every bound that
  is at least the number of characters read.
\<close>

definition enough :: "(nat \<Rightarrow> string \<Rightarrow> ('a \<times> string) option) \<Rightarrow> nat \<Rightarrow> bool" where
  "enough f n =
     (\<forall>cs v rest. f n cs = Some (v, rest) \<longrightarrow>
        length rest < length cs
        \<and> (\<forall>m. length cs - length rest \<le> m \<longrightarrow> f m cs = Some (v, rest)))"

section \<open>Example states\<close>

text \<open>
  A tool context without worktree and directory, in a process whose working
  directory is \<open>/proj\<close>; a new plugin on an empty store; three ids as \<open>uuidv4()\<close>
  returns them.
\<close>

definition ctx0 :: tool_ctx where
  "ctx0 = \<lparr>directory = None, worktree = None\<rparr>"

definition world_at :: "string \<Rightarrow> nat \<Rightarrow> world" where
  "world_at uuid now = \<lparr>w_cwd = ''/proj'', w_uuid = uuid, w_now = now\<rparr>"

definition empty_plugin :: plugin where
  "empty_plugin =
     \<lparr>db = \<lparr>entities = [], relationships = [], sessions = []\<rparr>,
      projectPath = ''/proj'', currentSessionId = None\<rparr>"

definition uuid1 :: string where "uuid1 = ''11111111-1111-4111-8111-111111111111''"
definition uuid2 :: string where "uuid2 = ''22222222-2222-4222-8222-222222222222''"
definition uuid3 :: string where "uuid3 = ''33333333-3333-4333-8333-333333333333''"

text \<open>The two entities of the specification's scenario, and an edge between them made by id.\<close>

definition two_components :: plugin where
  "two_components =
     snd (knowledge_add_entity (world_at uuid2 101) ''Database'' ''component'' ''Postgres store'' None ctx0
       (snd (knowledge_add_entity (world_at uuid1 100) ''UserService'' ''component'' ''Handles auth'' None ctx0
          empty_plugin)))"

definition connected :: plugin where
  "connected = snd (knowledge_connect (world_at uuid3 102) uuid1 uuid2 ''depends_on'' ctx0 two_components)"

text \<open>
  \<open>path.normalize\<close> as it is on a POSIX platform: empty and \<open>.\<close> segments are
  dropped, \<open>..\<close> removes the segment before it, a leading and a trailing
  separator are kept.
\<close>

fun split_on :: "char \<Rightarrow> string \<Rightarrow> string list" where
  "split_on c [] = [] # []"
| "split_on c (x # xs) =
     (if x = c then [] # split_on c xs
      else (case split_on c xs of [] \<Rightarrow> [x] # [] | s # ss \<Rightarrow> (x # s) # ss))"

fun normalize_segments :: "bool \<Rightarrow> string list \<Rightarrow> string list \<Rightarrow> string list" where
  "normalize_segments allowAboveRoot res [] = res"
| "normalize_segments allowAboveRoot res (s # ss) =
     (if s = [] \<or> s = ''.'' then normalize_segments allowAboveRoot res ss
      else if s = ''..'' then
        (if res \<noteq> [] \<and> last res \<noteq> ''..'' then normalize_segments allowAboveRoot (butlast res) ss
         else if allowAboveRoot then normalize_segments allowAboveRoot (res @ [s]) ss
         else normalize_segments allowAboveRoot res ss)
      else normalize_segments allowAboveRoot (res @ [s]) ss)"

fun join_segments :: "string list \<Rightarrow> string" where
  "join_segments [] = []"
| "join_segments [s] = s"
| "join_segments (s # t # ss) = s @ ''/'' @ join_segments (t # ss)"

definition posix_normalize :: "string \<Rightarrow> string" where
  "posix_normalize p =
     (if p = [] then ''.''
      else
        (let isAbsolute = (hd p = CHR ''/'');
             trailingSeparator = (last p = CHR ''/'');
             q = join_segments (normalize_segments (\<not> isAbsolute) [] (split_on CHR ''/'' p))
         in if q = [] then (if isAbsolute then ''/'' else if trailingSeparator then ''./'' else ''.'')
            else (if isAbsolute then ''/'' else []) @ q @ (if trailingSeparator then ''/'' else [])))"

text \<open>The store after the file \<open>src/app.ts\<close> was read once.\<close>

definition one_file :: plugin where
  "one_file =
     snd (tool_execute_after_read posix_normalize (world_at uuid1 200) (Some ''src/app.ts'')
            (Some ''export {}'') empty_plugin)"

text \<open>The store after one entity was added with a metadata string.\<close>

definition meta1 :: string where
  \<open>meta1 = ''{"layer": "service"}''\<close>

definition meta2 :: string where
  \<open>meta2 = ''{"layer": "data"}''\<close>

definition with_metadata :: "string \<Rightarrow> plugin" where
  "with_metadata m =
     snd (knowledge_add_entity (world_at uuid1 100) ''UserService'' ''component''
            ''Handles user authentication'' (Some m) ctx0 empty_plugin)"

text \<open>
  Stores with session rows: one summarised with the empty string for \<open>files\<close>;
  and one with two sessions, the earlier summarised with \<open>auth.ts\<close> for \<open>files\<close>, the
  later, by a new plugin instance on the same store, with a JSON array.
\<close>

definition good_files :: string where
  \<open>good_files = ''["b.ts"]''\<close>

definition empty_files :: plugin where
  "empty_files =
     snd (knowledge_summarize_session (world_at uuid1 100) ''s'' ''d'' [] ctx0 empty_plugin)"

definition two_sessions :: plugin where
  "two_sessions =
     snd (knowledge_summarize_session (world_at uuid2 200) ''later'' ''d2'' good_files ctx0
            ((snd (knowledge_summarize_session (world_at uuid1 100) ''earlier'' ''d1'' ''auth.ts''
                     ctx0 empty_plugin))\<lparr>currentSessionId := None\<rparr>))"

section \<open>Resolution of identifiers and the graph export\<close>

lemma two_components_eq:
  "two_components =
     \<lparr>db = \<lparr>entities =
              [\<lparr>e_id = uuid1, e_type = ''component'', e_name = ''UserService'',
                e_content = Some ''Handles auth'', e_metadata = None, e_project_path = ''/proj'',
                e_created_at = 100, e_updated_at = 100\<rparr>,
               \<lparr>e_id = uuid2, e_type = ''component'', e_name = ''Database'',
                e_content = Some ''Postgres store'', e_metadata = None, e_project_path = ''/proj'',
                e_created_at = 101, e_updated_at = 101\<rparr>],
            relationships = [], sessions = []\<rparr>,
      projectPath = ''/proj'', currentSessionId = None\<rparr>"
  by (simp add: two_components_def knowledge_add_entity_def insert_entity_def projPath_of_def
      getProjectPath_def ctx0_def world_at_def empty_plugin_def uuid1_def uuid2_def Let_def)

lemma projPath_ctx0: "projPath_of (world_at u n) ctx0 = ''/proj''"
  by (simp add: projPath_of_def getProjectPath_def ctx0_def world_at_def)

text \<open>
  C1.  The specification's scenario: two \<open>addEntity\<close> calls in a fresh project,
  then \<open>connect\<close> by the two names, is to succeed and \<open>exportGraph\<close> is to return
  2 nodes and 1 edge.  The code compares \<open>name\<close> with \<open>=\<close> to \<open>%UserService%\<close>, so
  neither name resolves: \<open>connect\<close> throws, nothing is stored, and the graph has
  the 2 nodes and no edge.
\<close>

theorem scenario_connect_by_name_fails:
  "knowledge_connect (world_at uuid3 102) ''UserService'' ''Database'' ''depends_on'' ctx0 two_components
     = (Inl (Error ''Could not find entities: UserService Database''), two_components)
   \<and> fst (knowledge_graph (world_at uuid3 103) None None ctx0 two_components)
     = Inr \<lparr>nodes = [\<lparr>n_id = uuid1, n_label = ''UserService'', n_type = ''component'', n_metadata = None\<rparr>,
                      \<lparr>n_id = uuid2, n_label = ''Database'', n_type = ''component'', n_metadata = None\<rparr>],
            edges = []\<rparr>"
  by (simp add: two_components_eq knowledge_connect_def knowledge_graph_def resolve_def
      select_id_by_id_or_name_def select_relationships_joined_def projPath_ctx0 uuid1_def uuid2_def Let_def)

text \<open>What the lookup of \<open>knowledge_connect\<close> finds: an entity of the project whose id is the
  identifier, or whose name is the identifier between two percent signs.\<close>

lemma resolve_None_iff:
  "resolve d p ident = None
     \<longleftrightarrow> \<not> (\<exists>e \<in> set (entities d).
              e_project_path e = p \<and> (e_id e = ident \<or> e_name e = ''%'' @ ident @ ''%''))"
  unfolding resolve_def select_id_by_id_or_name_def
  by (simp only: map_option_is_None find_None_iff) blast

text \<open>
  C2.  An identifier that is a substring of an entity's name is to resolve to
  the entity.  In the code neither the substring \<open>User\<close> nor the full name
  \<open>UserService\<close> resolves; only the exact id does.
\<close>

theorem resolve_substring_of_name_fails:
  "resolve (db two_components) ''/proj'' ''User'' = None
   \<and> resolve (db two_components) ''/proj'' ''UserService'' = None
   \<and> resolve (db two_components) ''/proj'' uuid1 = Some uuid1
   \<and> knowledge_connect (world_at uuid3 102) ''User'' uuid2 ''depends_on'' ctx0 two_components
       = (Inl (Error ''Could not find entities: User ''), two_components)"
  by (simp add: two_components_eq knowledge_connect_def resolve_def
      select_id_by_id_or_name_def projPath_ctx0 uuid1_def uuid2_def Let_def)

lemma concat_map_if:
  "concat (map (\<lambda>x. if P x then f x else []) xs) = concat (map f (filter P xs))"
  by (induction xs) auto

lemma filter_by_key:
  "distinct (map e_id es) \<Longrightarrow> i \<in> set (map e_id es) \<Longrightarrow>
   \<exists>e. find (\<lambda>e. e_id e = i) es = Some e \<and> filter (\<lambda>s. i = e_id s) es = [e]"
proof (induction es)
  case Nil
  then show ?case by simp
next
  case (Cons a es)
  show ?case
  proof (cases "e_id a = i")
    case True
    with Cons.prems have "i \<notin> set (map e_id es)" by auto
    then have "filter (\<lambda>s. i = e_id s) es = []" by (auto simp: filter_empty_conv)
    with True show ?thesis by auto
  next
    case False
    with Cons show ?thesis by auto
  qed
qed

lemma joined_rows:
  assumes "distinct (map e_id es)"
    and "list_all (\<lambda>r. r_source_id r \<in> set (map e_id es) \<and> r_target_id r \<in> set (map e_id es)) rs"
    and "entities d = es"
  shows "map (\<lambda>(r, sn, tn). Some \<lparr>g_id = r_id r, g_source = sn, g_target = tn,
                              g_type = r_relationship_type r\<rparr>)
           [(r, e_name s, e_name t).
              r \<leftarrow> rs,
              s \<leftarrow> es, r_source_id r = e_id s,
              t \<leftarrow> es, r_target_id r = e_id t,
              r_project_path r = p]
         = map (edge_of d) (filter (\<lambda>r. r_project_path r = p) rs)"
  using assms(2)
proof (induction rs)
  case Nil
  then show ?case by simp
next
  case (Cons r rs)
  from Cons.prems have src: "r_source_id r \<in> set (map e_id es)"
    and tgt: "r_target_id r \<in> set (map e_id es)"
    by auto
  from filter_by_key [OF assms(1) src] obtain s where
    s: "find (\<lambda>e. e_id e = r_source_id r) es = Some s" "filter (\<lambda>s. r_source_id r = e_id s) es = [s]"
    by blast
  from filter_by_key [OF assms(1) tgt] obtain t where
    t: "find (\<lambda>e. e_id e = r_target_id r) es = Some t" "filter (\<lambda>s. r_target_id r = e_id s) es = [t]"
    by blast
  have here: "concat (map (\<lambda>s. if r_source_id r = e_id s
                  then concat (map (\<lambda>t. if r_target_id r = e_id t
                         then (if r_project_path r = p then [(r, e_name s, e_name t)] else [])
                         else []) es)
                  else []) es)
        = (if r_project_path r = p then [(r, e_name s, e_name t)] else [])"
    by (simp only: concat_map_if s t) simp
  have edge: "edge_of d r = Some \<lparr>g_id = r_id r, g_source = e_name s, g_target = e_name t,
                              g_type = r_relationship_type r\<rparr>"
    using s(1) t(1) assms(3) by (simp add: edge_of_def name_of_id_def)
  from Cons show ?case
    by (simp add: here edge)
qed

text \<open>
  C9.  The edges \<open>knowledge_graph\<close> returns are the same for every \<open>entityType\<close>
  (and \<open>depth\<close>), and, on a store that meets its key constraints, they are exactly
  the relationships of the project, one edge each in insertion order, carrying
  the names of the source and target entities; the filter restricts the nodes
  only, so an edge is returned also when its end points are not among the nodes.
\<close>

theorem graph_edges_ignore_entityType:
  "\<exists>g g0. graph_of (knowledge_graph w entityType depth ctx st) = Some g
     \<and> graph_of (knowledge_graph w None None ctx st) = Some g0
     \<and> edges g = edges g0
     \<and> (keys_ok (db st) \<longrightarrow>
          map Some (edges g)
            = map (edge_of (db st))
                (filter (\<lambda>r. r_project_path r = projPath_of w ctx) (relationships (db st))))"
proof -
  have "keys_ok (db st) \<Longrightarrow>
     map (\<lambda>(r, sn, tn). Some \<lparr>g_id = r_id r, g_source = sn, g_target = tn,
                              g_type = r_relationship_type r\<rparr>)
           (select_relationships_joined (db st) (projPath_of w ctx))
       = map (edge_of (db st)) (filter (\<lambda>r. r_project_path r = projPath_of w ctx) (relationships (db st)))"
    unfolding keys_ok_def select_relationships_joined_def
    using joined_rows [of "entities (db st)" "relationships (db st)" "db st" "projPath_of w ctx"]
    by blast
  then show ?thesis
    by (simp add: graph_of_def knowledge_graph_def Let_def split_def comp_def)
qed

lemma connected_eq:
  "connected =
     two_components\<lparr>db := (db two_components)\<lparr>relationships :=
        [\<lparr>r_id = uuid3, r_source_id = uuid1, r_target_id = uuid2,
          r_relationship_type = ''depends_on'', r_metadata = None, r_project_path = ''/proj'',
          r_created_at = 102\<rparr>]\<rparr>\<rparr>"
  by (simp add: connected_def two_components_eq knowledge_connect_def resolve_def
      select_id_by_id_or_name_def insert_relationship_def projPath_ctx0 uuid1_def uuid2_def Let_def)
    (simp add: world_at_def)

theorem graph_edges_ignore_entityType_witness:
  "keys_ok (db connected)
   \<and> graph_of (knowledge_graph (world_at uuid3 103) (Some ''decision'') (Some 2) ctx0 connected)
       = Some \<lparr>nodes = [],
               edges = [\<lparr>g_id = uuid3, g_source = ''UserService'', g_target = ''Database'',
                         g_type = ''depends_on''\<rparr>]\<rparr>"
proof -
  have k: "keys_ok (db connected)"
    by (simp add: connected_eq two_components_eq keys_ok_def uuid1_def uuid2_def)
  have n: "\<And>g. graph_of (knowledge_graph (world_at uuid3 103) (Some ''decision'') (Some 2) ctx0 connected) = Some g
        \<Longrightarrow> nodes g = []"
    by (auto simp add: graph_of_def knowledge_graph_def connected_eq two_components_eq projPath_ctx0 Let_def)
  have e: "map (edge_of (db connected))
             (filter (\<lambda>r. r_project_path r = projPath_of (world_at uuid3 103) ctx0) (relationships (db connected)))
          = [Some \<lparr>g_id = uuid3, g_source = ''UserService'', g_target = ''Database'',
                         g_type = ''depends_on''\<rparr>]"
    by (simp add: connected_eq two_components_eq projPath_ctx0 edge_of_def name_of_id_def uuid1_def uuid2_def)
  from graph_edges_ignore_entityType [of "world_at uuid3 103" "Some ''decision''" "Some 2" ctx0 connected]
  obtain g where g: "graph_of (knowledge_graph (world_at uuid3 103) (Some ''decision'') (Some 2) ctx0 connected) = Some g"
    and "keys_ok (db connected) \<longrightarrow> map Some (edges g)
            = map (edge_of (db connected))
                (filter (\<lambda>r. r_project_path r = projPath_of (world_at uuid3 103) ctx0) (relationships (db connected)))"
    by blast
  with k e have "map Some (edges g) = [Some \<lparr>g_id = uuid3, g_source = ''UserService'', g_target = ''Database'',
                         g_type = ''depends_on''\<rparr>]" by simp
  then have "edges g = [\<lparr>g_id = uuid3, g_source = ''UserService'', g_target = ''Database'',
                         g_type = ''depends_on''\<rparr>]"
    by (auto simp: map_eq_Cons_conv)
  with n [OF g] g k show ?thesis by (cases g) simp
qed



text \<open>Every modelled operation keeps the key constraints.\<close>

lemma keys_ok_insert_entity:
  "keys_ok d \<Longrightarrow> insert_entity e d = Inr d' \<Longrightarrow> keys_ok d'"
  by (auto simp: keys_ok_def insert_entity_def list_all_iff split: if_splits)

lemma resolve_Some_id:
  "resolve d p i = Some x \<Longrightarrow> x \<in> set (map e_id (entities d))"
  by (auto simp: resolve_def select_id_by_id_or_name_def find_Some_iff)

lemma keys_ok_add_entity:
  "keys_ok (db st) \<Longrightarrow> keys_ok (db (snd (knowledge_add_entity w name type content metadata ctx st)))"
  by (auto simp: knowledge_add_entity_def Let_def split: sum.splits dest: keys_ok_insert_entity)

lemma keys_ok_connect:
  "keys_ok (db st) \<Longrightarrow> keys_ok (db (snd (knowledge_connect w source target relationship ctx st)))"
  by (auto simp: knowledge_connect_def Let_def insert_relationship_def keys_ok_def list_all_iff
      split: sum.splits option.splits if_splits dest: resolve_Some_id)

lemma keys_ok_empty: "keys_ok (db empty_plugin)"
  by (simp add: keys_ok_def empty_plugin_def)

lemma keys_ok_read:
  "keys_ok (db st) \<Longrightarrow>
   keys_ok (db (snd (tool_execute_after_read path_normalize w filePath result st)))"
  by (auto simp: tool_execute_after_read_def Let_def split: option.splits sum.splits
      dest: keys_ok_insert_entity)

lemma keys_ok_file_edited:
  "keys_ok (db st) \<Longrightarrow> keys_ok (db (file_edited path_normalize w filePath st))"
proof -
  have ids: "map e_id (map (\<lambda>e. if e_id e = i then e\<lparr>e_updated_at := t\<rparr> else e) es) = map e_id es"
    for i t and es :: "entity list"
    by (induction es) auto
  show "keys_ok (db st) \<Longrightarrow> keys_ok (db (file_edited path_normalize w filePath st))"
    by (cases "select_entity_by_name (db st) (projectPath st) (path_normalize filePath)")
      (simp_all add: file_edited_def keys_ok_def ids del: map_map set_map)
qed

lemma keys_ok_summarize:
  "keys_ok (db st) \<Longrightarrow>
   keys_ok (db (snd (knowledge_summarize_session w summary decisions files ctx st)))"
  by (simp add: knowledge_summarize_session_def upsert_session_def keys_ok_def Let_def)

lemma keys_ok_session_deleted:
  "keys_ok (db st) \<Longrightarrow> keys_ok (db (snd (session_deleted w output st)))"
  by (auto simp: session_deleted_def keys_ok_def Let_def split: option.splits prod.splits)

section \<open>Running a search\<close>

text \<open>
  The limits SQLite accepts, and what \<open>knowledge_search\<close> returns when the limit
  is accepted and the pattern is within the length \<open>LIKE\<close> allows.  A refused limit
  fails the call; so does a pattern that is too long, as soon as one row of the
  project is scanned.
\<close>

lemma bind_limit_Inr_iff:
  "bind_limit l = Inr n
     \<longleftrightarrow> l = JsInt n \<and> - 9223372036854775808 < n \<and> n < 9223372036854775807"
  by (cases l) auto

lemma bind_default_limit: "bind_limit (default_limit None) = Inr 10"
  by simp

lemma sqlite_like_short:
  "utf8_bytes p \<le> like_pattern_limit \<Longrightarrow> sqlite_like p text = Inr (like_text p text)"
  by (simp add: sqlite_like_def)

lemma search_where_short:
  "utf8_bytes p \<le> like_pattern_limit \<Longrightarrow>
   search_where projPath p type e = Inr (search_matches projPath p type e)"
  by (auto simp: search_where_def search_matches_def sqlite_like_short)

lemma filter_throwing_search:
  "utf8_bytes p \<le> like_pattern_limit \<Longrightarrow>
   filter_throwing (search_where projPath p type) es
     = Inr (filter (search_matches projPath p type) es)"
  by (induction es) (simp_all add: search_where_short)

lemma limit_rows_zero: "limit_rows 0 xs = []"
  by (simp add: limit_rows_def)

lemma order_by_desc_Nil: "order_by_desc key [] = []"
  by (simp add: order_by_desc_def)

lemma search_run:
  assumes "bind_limit (default_limit limit) = Inr n"
    and "utf8_bytes (''%'' @ query @ ''%'') \<le> like_pattern_limit"
  shows "knowledge_search w query type limit ctx st
     = (Inr \<lparr>sq_query = query,
              sq_count = length (limit_rows n (order_by_desc e_updated_at
                 (filter (search_matches (projPath_of w ctx) (''%'' @ query @ ''%'') type)
                    (entities (db st))))),
              sq_results = map search_row_of (limit_rows n (order_by_desc e_updated_at
                 (filter (search_matches (projPath_of w ctx) (''%'' @ query @ ''%'') type)
                    (entities (db st)))))\<rparr>,
        st)"
proof (cases "n = 0")
  case True
  with assms(1) show ?thesis
    by (simp add: knowledge_search_def Let_def limit_rows_zero order_by_desc_Nil
        del: bind_limit.simps)
next
  case False
  with assms(1) show ?thesis
    by (simp add: knowledge_search_def Let_def filter_throwing_search [OF assms(2)]
        del: bind_limit.simps append.simps)
qed

lemma search_limit_mismatch:
  "bind_limit (default_limit limit) = Inl err \<Longrightarrow>
   knowledge_search w query type limit ctx st = (Inl err, st)"
  by (simp add: knowledge_search_def Let_def del: bind_limit.simps)

lemma search_pattern_too_long:
  assumes "bind_limit (default_limit limit) = Inr n" and "n \<noteq> 0"
    and "like_pattern_limit < utf8_bytes (''%'' @ query @ ''%'')"
    and "e \<in> set (entities (db st))" and "e_project_path e = projPath_of w ctx"
  shows "knowledge_search w query type limit ctx st = (Inl LikePatternTooComplex, st)"
proof -
  have row: "search_where (projPath_of w ctx) (''%'' @ query @ ''%'') type e = Inl LikePatternTooComplex"
    using assms(3,5) by (simp add: search_where_def sqlite_like_def del: append.simps)
  have other: "search_where (projPath_of w ctx) (''%'' @ query @ ''%'') type x = Inl LikePatternTooComplex
      \<or> search_where (projPath_of w ctx) (''%'' @ query @ ''%'') type x = Inr False" for x
    using assms(3) by (simp add: search_where_def sqlite_like_def del: append.simps)
  have scan: "x \<in> set es \<Longrightarrow> f x = Inl LikePatternTooComplex \<Longrightarrow>
      (\<And>y. f y = Inl LikePatternTooComplex \<or> f y = Inr False) \<Longrightarrow>
      filter_throwing f es = Inl LikePatternTooComplex"
    for x :: entity and es f
  proof (induction es)
    case Nil
    then show ?case by simp
  next
    case (Cons a es)
    from Cons.prems(3) [of a] show ?case
    proof
      assume "f a = Inl LikePatternTooComplex"
      then show ?thesis by simp
    next
      assume a: "f a = Inr False"
      with Cons.prems have "x \<in> set es" by auto
      with Cons a show ?thesis by simp
    qed
  qed
  have "filter_throwing (search_where (projPath_of w ctx) (''%'' @ query @ ''%'') type) (entities (db st))
          = Inl LikePatternTooComplex"
    using assms(4) row other by (rule scan)
  with assms(1,2) show ?thesis
    by (simp add: knowledge_search_def Let_def del: bind_limit.simps append.simps)
qed

text \<open>
  Three inputs at the edges: a limit of \<open>2\<^sup>6\<^sup>3\<close> and a number that is no integer are
  refused, and the query that is one NUL character gives the pattern \<open>%\<close>, which
  every text matches.
\<close>

lemma bind_limit_edges:
  "bind_limit (JsInt 9223372036854775808) = Inl SqliteMismatch"
  "bind_limit JsOther = Inl SqliteMismatch"
  "bind_limit (JsInt (- 1)) = Inr (- 1)"
  by simp_all

lemma like_nul_query: "like_text (''%'' @ [CHR 0x00] @ ''%'') (Some ''plain'')"
  by (simp add: c_string_def)

section \<open>Auto-capture of files read, and metadata\<close>

lemma normalize_app: "posix_normalize ''src/app.ts'' = ''src/app.ts''"
  by (simp add: posix_normalize_def)

lemma one_file_eq:
  "one_file =
     empty_plugin\<lparr>db := (db empty_plugin)\<lparr>entities :=
       [\<lparr>e_id = uuid1, e_type = ''typescript'', e_name = ''src/app.ts'',
         e_content = Some ''export {}'', e_metadata = None, e_project_path = ''/proj'',
         e_created_at = 200, e_updated_at = 200\<rparr>]\<rparr>\<rparr>"
  by (simp add: one_file_def tool_execute_after_read_def select_entity_by_name_def
      insert_entity_def empty_plugin_def world_at_def file_type_def ends_with_def normalize_app Let_def)

text \<open>
  C3, as stated: a read event for a path that already names an entity is to
  refresh the row's \<open>updatedAt\<close>.  The file \<open>src/app.ts\<close> is captured at instant 200
  and read again at instant 300; the row still carries 200.
\<close>

theorem read_existing_keeps_updatedAt:
  "select_entity_by_name (db one_file) (projectPath one_file) ''src/app.ts'' \<noteq> None
   \<and> map e_updated_at (entities (db one_file)) = [200]
   \<and> map e_updated_at
        (entities (db (snd (tool_execute_after_read posix_normalize (world_at uuid2 300)
           (Some ''src/app.ts'') (Some ''export {}'') one_file)))) = [200]"
  by (simp add: one_file_eq tool_execute_after_read_def select_entity_by_name_def
      empty_plugin_def normalize_app Let_def)

text \<open>
  C3, amended.  A read event whose normalized path already names an entity of the
  project leaves the whole state as it was: no second row, and the existing row,
  its \<open>updatedAt\<close> included, untouched.
\<close>

theorem read_existing_is_noop:
  assumes "\<exists>e \<in> set (entities (db st)).
             e_project_path e = projectPath st \<and> e_name e = path_normalize filePath"
  shows "tool_execute_after_read path_normalize w (Some filePath) result st = (Inr (), st)"
proof -
  from assms have "select_entity_by_name (db st) (projectPath st) (path_normalize filePath) \<noteq> None"
    by (auto simp: select_entity_by_name_def find_None_iff)
  then show ?thesis
    by (auto simp: tool_execute_after_read_def Let_def split: option.splits)
qed

theorem read_existing_is_noop_witness:
  "(\<exists>e \<in> set (entities (db one_file)).
      e_project_path e = projectPath one_file \<and> e_name e = posix_normalize ''src/app.ts'')
   \<and> tool_execute_after_read posix_normalize (world_at uuid2 300) (Some ''src/app.ts'')
        (Some ''export {}'') one_file = (Inr (), one_file)"
proof -
  have h: "\<exists>e \<in> set (entities (db one_file)).
      e_project_path e = projectPath one_file \<and> e_name e = posix_normalize ''src/app.ts''"
    by (simp add: one_file_eq empty_plugin_def normalize_app)
  from h read_existing_is_noop [of one_file posix_normalize "''src/app.ts''" "world_at uuid2 300" "Some ''export {}''"]
  show ?thesis by blast
qed

text \<open>The refresh of \<open>updated_at\<close> belongs to the \<open>file.edited\<close> handler.\<close>

lemma file_edited_refreshes:
  assumes "select_entity_by_name (db st) (projectPath st) (path_normalize filePath) = Some e"
  shows "entities (db (file_edited path_normalize w filePath st))
           = map (\<lambda>x. if e_id x = e_id e then x\<lparr>e_updated_at := w_now w\<rparr> else x) (entities (db st))"
  using assms by (simp add: file_edited_def Let_def)

lemma with_metadata_eq:
  "m \<noteq> [] \<Longrightarrow> with_metadata m =
     empty_plugin\<lparr>db := (db empty_plugin)\<lparr>entities :=
       [\<lparr>e_id = uuid1, e_type = ''component'', e_name = ''UserService'',
         e_content = Some ''Handles user authentication'', e_metadata = Some m,
         e_project_path = ''/proj'', e_created_at = 100, e_updated_at = 100\<rparr>]\<rparr>\<rparr>"
  by (simp add: with_metadata_def knowledge_add_entity_def insert_entity_def projPath_ctx0
      empty_plugin_def Let_def) (simp add: world_at_def)

lemma pattern_User_short: "utf8_bytes (''%'' @ ''User'' @ ''%'') \<le> like_pattern_limit"
  by (simp add: utf8_bytes_def like_pattern_limit_def)

lemma search_with_metadata:
  "m \<noteq> [] \<Longrightarrow>
   fst (knowledge_search (world_at uuid2 101) ''User'' None None ctx0 (with_metadata m))
     = Inr \<lparr>sq_query = ''User'', sq_count = 1,
            sq_results = [\<lparr>sr_id = uuid1, sr_type = ''component'', sr_name = ''UserService'',
                           sr_content = Some ''Handles user authentication'',
                           sr_updated = 100\<rparr>]\<rparr>"
  unfolding search_run [OF bind_default_limit pattern_User_short]
  by (simp add: with_metadata_eq projPath_ctx0 search_matches_def c_string_def
      order_by_desc_def limit_rows_def search_row_of_def empty_plugin_def)

text \<open>
  C4, as stated: a search that finds an entity is to return its metadata
  string.  The rows of the search payload carry id, type, name, content and
  updated only: the entity created with one metadata string and the one created
  with another give the same payload.
\<close>

theorem search_payload_without_metadata:
  "map e_metadata (entities (db (with_metadata meta1))) = [Some meta1]
   \<and> fst (knowledge_search (world_at uuid2 101) ''User'' None None ctx0 (with_metadata meta1))
     = Inr \<lparr>sq_query = ''User'', sq_count = 1,
            sq_results = [\<lparr>sr_id = uuid1, sr_type = ''component'', sr_name = ''UserService'',
                           sr_content = Some ''Handles user authentication'',
                           sr_updated = 100\<rparr>]\<rparr>
   \<and> fst (knowledge_search (world_at uuid2 101) ''User'' None None ctx0 (with_metadata meta2))
     = fst (knowledge_search (world_at uuid2 101) ''User'' None None ctx0 (with_metadata meta1))
   \<and> meta2 \<noteq> meta1"
proof -
  have 1: "meta1 \<noteq> []" and 2: "meta2 \<noteq> []" and 3: "meta2 \<noteq> meta1"
    by (simp_all add: meta1_def meta2_def)
  have 4: "map e_metadata (entities (db (with_metadata meta1))) = [Some meta1]"
    by (simp add: with_metadata_eq [OF 1] empty_plugin_def)
  show ?thesis
    using 3 4 by (simp add: search_with_metadata [OF 1] search_with_metadata [OF 2])
qed

lemma graph_nodes:
  "graph_of (knowledge_graph w entityType depth ctx st)
     = Some \<lparr>nodes = map (\<lambda>e. \<lparr>n_id = e_id e, n_label = e_name e, n_type = e_type e,
                                   n_metadata = e_metadata e\<rparr>)
                        (filter (\<lambda>e. e_project_path e = projPath_of w ctx
                                  \<and> (if truthy entityType then Some (e_type e) = entityType else True))
                           (entities (db st))),
             edges = edges (the (graph_of (knowledge_graph w entityType depth ctx st)))\<rparr>"
  by (simp add: graph_of_def knowledge_graph_def Let_def)

text \<open>
  C4, amended.  An entity created under a fresh id with a non-empty metadata
  string is stored with that very string, and a graph export of the project
  whose type filter admits the entity returns it unchanged as the node's
  metadata.
\<close>

theorem metadata_stored_and_exported:
  assumes "metadata \<noteq> []"
    and "w_uuid w \<notin> set (map e_id (entities (db st)))"
    and "projPath_of w' ctx' = projPath_of w ctx"
    and "\<not> truthy entityType \<or> entityType = Some type"
  shows "(\<exists>e \<in> set (entities (db (snd (knowledge_add_entity w name type content (Some metadata) ctx st)))).
            e_id e = w_uuid w \<and> e_metadata e = Some metadata)
       \<and> (\<exists>g. graph_of (knowledge_graph w' entityType depth ctx'
                   (snd (knowledge_add_entity w name type content (Some metadata) ctx st))) = Some g
              \<and> (\<exists>n \<in> set (nodes g). n_id n = w_uuid w \<and> n_label n = name
                     \<and> n_metadata n = Some metadata))"
proof -
  let ?e = "\<lparr>e_id = w_uuid w, e_type = type, e_name = name, e_content = Some content,
             e_metadata = Some metadata, e_project_path = projPath_of w ctx,
             e_created_at = w_now w, e_updated_at = w_now w\<rparr>"
  let ?st = "snd (knowledge_add_entity w name type content (Some metadata) ctx st)"
  have ents: "entities (db ?st) = entities (db st) @ [?e]"
    using assms(1,2) by (simp add: knowledge_add_entity_def insert_entity_def Let_def)
  have 1: "\<exists>e \<in> set (entities (db ?st)). e_id e = w_uuid w \<and> e_metadata e = Some metadata"
    unfolding ents by simp
  have "?e \<in> set (filter (\<lambda>e. e_project_path e = projPath_of w' ctx'
                                  \<and> (if truthy entityType then Some (e_type e) = entityType else True))
                           (entities (db ?st)))"
    unfolding ents using assms(3,4) by auto
  then have "\<lparr>n_id = w_uuid w, n_label = name, n_type = type, n_metadata = Some metadata\<rparr>
      \<in> set (map (\<lambda>e. \<lparr>n_id = e_id e, n_label = e_name e, n_type = e_type e,
                                   n_metadata = e_metadata e\<rparr>)
                (filter (\<lambda>e. e_project_path e = projPath_of w' ctx'
                                  \<and> (if truthy entityType then Some (e_type e) = entityType else True))
                           (entities (db ?st))))"
    by force
  then have 2: "\<exists>g. graph_of (knowledge_graph w' entityType depth ctx' ?st) = Some g
              \<and> (\<exists>n \<in> set (nodes g). n_id n = w_uuid w \<and> n_label n = name
                     \<and> n_metadata n = Some metadata)"
    by (subst graph_nodes) force
  from 1 2 show ?thesis by blast
qed

theorem metadata_stored_and_exported_witness:
  "meta1 \<noteq> []
   \<and> w_uuid (world_at uuid1 100) \<notin> set (map e_id (entities (db empty_plugin)))
   \<and> projPath_of (world_at uuid2 101) ctx0 = projPath_of (world_at uuid1 100) ctx0
   \<and> (\<exists>g. graph_of (knowledge_graph (world_at uuid2 101) (Some ''component'') None ctx0
              (snd (knowledge_add_entity (world_at uuid1 100) ''UserService'' ''component''
                     ''Handles user authentication'' (Some meta1) ctx0 empty_plugin))) = Some g
          \<and> (\<exists>n \<in> set (nodes g). n_id n = w_uuid (world_at uuid1 100) \<and> n_label n = ''UserService''
                 \<and> n_metadata n = Some meta1))"
proof -
  have a: "meta1 \<noteq> []" by (simp add: meta1_def)
  have b: "w_uuid (world_at uuid1 100) \<notin> set (map e_id (entities (db empty_plugin)))"
    by (simp add: empty_plugin_def)
  have c: "projPath_of (world_at uuid2 101) ctx0 = projPath_of (world_at uuid1 100) ctx0"
    by (simp add: projPath_ctx0)
  have d: "\<not> truthy (Some ''component'') \<or> Some ''component'' = Some ''component''" by simp
  from a b c metadata_stored_and_exported [OF a b c d, of "''UserService''" "''Handles user authentication''" None]
  show ?thesis by blast
qed

section \<open>Reading back what \<open>JSON.stringify\<close> wrote\<close>

lemma hex_val_hex_digit: "n < 16 \<Longrightarrow> hex_val (hex_digit n) = Some n"
  by (auto simp: hex_val_def hex_digit_def Let_def)

lemma hex4_control:
  assumes "n < 32"
  shows "hex4 CHR ''0'' CHR ''0'' (hex_digit (n div 16)) (hex_digit (n mod 16)) = Some n"
proof -
  have a: "hex_val CHR ''0'' = Some 0" by (simp add: hex_val_def)
  have b: "hex_val (hex_digit (n div 16)) = Some (n div 16)"
    using assms by (intro hex_val_hex_digit) simp
  have c: "hex_val (hex_digit (n mod 16)) = Some (n mod 16)"
    by (intro hex_val_hex_digit) simp
  show ?thesis by (simp add: hex4_def a b c)
qed

lemma parse_chars_quote_char:
  "parse_chars (quote_char c @ r) = cons_fst c (parse_chars r)"
proof -
  consider (short) "c = CHR 0x08 \<or> c = CHR 0x09 \<or> c = CHR 0x0A \<or> c = CHR 0x0C \<or> c = CHR 0x0D
                      \<or> c = dquote \<or> c = backslash"
    | (ctrl) "c \<noteq> CHR 0x08" "c \<noteq> CHR 0x09" "c \<noteq> CHR 0x0A" "c \<noteq> CHR 0x0C" "c \<noteq> CHR 0x0D"
             "c \<noteq> dquote" "c \<noteq> backslash" "of_char c < (32::nat)"
    | (plain) "c \<noteq> dquote" "c \<noteq> backslash" "\<not> of_char c < (32::nat)"
    by (auto simp: dquote_def backslash_def)
  then show ?thesis
  proof cases
    case short
    then show ?thesis
      by (auto simp: quote_char_def unescape_def dquote_def backslash_def)
  next
    case ctrl
    then show ?thesis
      by (simp add: quote_char_def hex4_control) (simp add: dquote_def backslash_def)
  next
    case plain
    then have "quote_char c = [c]"
      by (auto simp: quote_char_def dquote_def backslash_def)
    with plain show ?thesis by simp
  qed
qed

lemma parse_chars_quote_chars:
  "parse_chars (quote_chars s @ dquote # rest) = Some (s, rest)"
proof (induction s)
  case Nil
  show ?case by (simp add: quote_chars_def)
next
  case (Cons c s)
  have "quote_chars (c # s) @ dquote # rest = quote_char c @ (quote_chars s @ dquote # rest)"
    by (simp add: quote_chars_def)
  then show ?case
    by (simp only: parse_chars_quote_char Cons.IH) (simp add: cons_fst_def)
qed

lemma skip_ws_nonws: "\<not> is_ws c \<Longrightarrow> skip_ws (c # r) = c # r"
  by (simp add: skip_ws_def)

lemma skip_ws_Nil: "skip_ws [] = []"
  by (simp add: skip_ws_def)

lemma not_ws:
  "\<not> is_ws dquote" "\<not> is_ws CHR '':''" "\<not> is_ws CHR '',''" "\<not> is_ws CHR ''}''"
  "\<not> is_ws CHR ''{''"
  by (simp_all add: is_ws_def dquote_def)

lemma dquote_neq: "dquote \<noteq> CHR ''{''" "dquote \<noteq> CHR ''[''" "dquote \<noteq> CHR ''}''"
  by (simp_all add: dquote_def)

lemma parse_value_string:
  "parse_value (Suc n) (dquote # quote_chars s @ dquote # rest) = Some (JStr s, rest)"
  by (simp add: parse_chars_quote_chars dquote_neq)

lemma parse_members_last:
  assumes "parse_value n (dquote # r2) = Some (v, CHR ''}'' # r4)"
  shows "parse_members (Suc n) (dquote # quote_chars k @ dquote # CHR '':'' # dquote # r2)
           = Some ([(k, v)], r4)"
  using assms by (simp add: parse_chars_quote_chars skip_ws_nonws not_ws)

lemma parse_members_more:
  assumes "parse_value n (dquote # r2) = Some (v, CHR '','' # dquote # r4)"
    and "parse_members n (dquote # r4) = Some (ms, r5)"
  shows "parse_members (Suc n) (dquote # quote_chars k @ dquote # CHR '':'' # dquote # r2)
           = Some ((k, v) # ms, r5)"
  using assms by (simp add: parse_chars_quote_chars skip_ws_nonws not_ws cons_fst_def)

lemma parse_value_object:
  assumes "parse_members n (dquote # r) = Some (ms, q)"
  shows "parse_value (Suc n) (CHR ''{'' # dquote # r) = Some (JObj ms, q)"
  using assms by (simp add: skip_ws_nonws not_ws dquote_neq)

lemma stringify_two_strings:
  "JSON_stringify (JObj [(k1, JStr a), (k2, JStr b)])
     = CHR ''{'' # dquote # quote_chars k1 @ dquote # CHR '':'' # dquote # quote_chars a @ dquote
         # CHR '','' # dquote # quote_chars k2 @ dquote # CHR '':'' # dquote # quote_chars b @ dquote
         # ''}''"
  by (simp add: quote_string_def)

lemma parse_two_strings:
  "parse_value (Suc (Suc (Suc (Suc n)))) (JSON_stringify (JObj [(k1, JStr a), (k2, JStr b)]))
     = Some (JObj [(k1, JStr a), (k2, JStr b)], [])"
  unfolding stringify_two_strings
  apply (rule parse_value_object)
  apply (rule parse_members_more)
   apply (rule parse_value_string)
  apply (rule parse_members_last)
  apply (rule parse_value_string)
  done

lemma JSON_parse_two_strings:
  "JSON_parse (JSON_stringify (JObj [(k1, JStr a), (k2, JStr b)]))
     = Some (JObj [(k1, JStr a), (k2, JStr b)])"
proof -
  let ?s = "JSON_stringify (JObj [(k1, JStr a), (k2, JStr b)])"
  have "3 \<le> length ?s" by (simp add: stringify_two_strings)
  then have "length ?s = Suc (Suc (Suc (length ?s - 3)))" by simp
  then obtain n where n: "length ?s = Suc (Suc (Suc n))" ..
  have ws: "skip_ws ?s = ?s"
    unfolding stringify_two_strings by (simp add: skip_ws_nonws not_ws)
  show ?thesis
    unfolding JSON_parse_def ws n parse_two_strings by (simp add: skip_ws_Nil)
qed

subsection \<open>The bound on calls never decides\<close>

text \<open>
  Each parser returns a text shorter than the one it was given, and a parse that
  succeeds with some bound succeeds with every bound that is at least the number
  of characters it read.  So \<open>JSON_parse\<close>, which allows one call more than the
  text has characters, fails only on a text that no bound would accept.
\<close>

lemma skip_ws_length: "length (skip_ws cs) \<le> length cs"
  by (simp add: skip_ws_def length_dropWhile_le)

lemma skip_ws_Cons_length: "skip_ws r = c # r1 \<Longrightarrow> Suc (length r1) \<le> length r"
  using skip_ws_length [of r] by simp

lemma cons_fst_Some:
  "cons_fst x r = Some (ys, rest) \<Longrightarrow> \<exists>xs. r = Some (xs, rest) \<and> ys = x # xs"
  by (cases r) (auto simp: cons_fst_def)

lemma parse_chars_shorter:
  "parse_chars cs = Some (s, rest) \<Longrightarrow> length rest < length cs"
proof (induction "length cs" arbitrary: cs s rest rule: less_induct)
  case less
  show ?case
  proof (cases cs)
    case Nil
    with less.prems show ?thesis by simp
  next
    case (Cons c cs')
    with less.prems have
      "rest = cs' \<or> (\<exists>t xs. length t \<le> length cs' \<and> parse_chars t = Some (xs, rest))"
      by (simp split: if_splits list.splits option.splits) (fastforce dest!: cons_fst_Some)+
    then show ?thesis
    proof
      assume "rest = cs'"
      with Cons show ?thesis by simp
    next
      assume "\<exists>t xs. length t \<le> length cs' \<and> parse_chars t = Some (xs, rest)"
      then obtain t xs where t: "length t \<le> length cs'" "parse_chars t = Some (xs, rest)"
        by blast
      with Cons have "length t < length cs" by simp
      from less.hyps [OF this t(2)] t(1) Cons show ?thesis by simp
    qed
  qed
qed

lemma parse_digits1_shorter:
  "parse_digits1 cs = Some (s, rest) \<Longrightarrow> length rest < length cs"
proof -
  assume a: "parse_digits1 cs = Some (s, rest)"
  then have ne: "takeWhile is_digit cs \<noteq> []" and r: "rest = dropWhile is_digit cs"
    by (auto simp: parse_digits1_def split: if_splits)
  have "length (takeWhile is_digit cs) + length (dropWhile is_digit cs) = length cs"
    by (metis length_append takeWhile_dropWhile_id)
  with ne r show ?thesis by (cases "takeWhile is_digit cs") auto
qed

lemma parse_int_part_shorter:
  "parse_int_part cs = Some (s, rest) \<Longrightarrow> length rest < length cs"
  by (auto simp: parse_int_part_def split: list.splits if_splits dest: parse_digits1_shorter)

lemma parse_frac_shorter:
  "parse_frac cs = Some (s, rest) \<Longrightarrow> length rest \<le> length cs"
  by (auto simp: parse_frac_def split: list.splits if_splits
      dest!: cons_fst_Some parse_digits1_shorter)

lemma parse_exp_shorter:
  "parse_exp cs = Some (s, rest) \<Longrightarrow> length rest \<le> length cs"
  by (auto simp: parse_exp_def split: list.splits if_splits
      dest!: cons_fst_Some parse_digits1_shorter)

lemma parse_unsigned_shorter:
  "parse_unsigned cs = Some (s, rest) \<Longrightarrow> length rest < length cs"
  by (auto simp: parse_unsigned_def split: option.splits prod.splits
      dest!: parse_int_part_shorter parse_frac_shorter parse_exp_shorter)

lemma parse_number_shorter:
  "parse_number cs = Some (s, rest) \<Longrightarrow> length rest < length cs"
  by (auto simp: parse_number_def split: list.splits if_splits
      dest!: cons_fst_Some parse_unsigned_shorter)

lemma parse_literal_shorter:
  "lit \<noteq> [] \<Longrightarrow> parse_literal lit v cs = Some (x, rest) \<Longrightarrow> length rest < length cs"
  by (cases cs; cases lit) (auto simp: parse_literal_def split: if_splits)

lemma parse_value_scalar:
  assumes "c \<noteq> CHR ''{''" and "c \<noteq> CHR ''[''"
  shows "parse_value (Suc n) (c # r) = parse_value (Suc m) (c # r)"
  using assms by simp

lemma parse_value_scalar_shorter:
  assumes "c \<noteq> CHR ''{''" and "c \<noteq> CHR ''[''"
    and "parse_value (Suc n) (c # r) = Some (v, rest)"
  shows "length rest < length (c # r)"
proof -
  from assms consider
      (str) s where "parse_chars r = Some (s, rest)"
    | (lit) lit x where "lit \<noteq> []" "parse_literal lit x (c # r) = Some (v, rest)"
    | (num) s where "parse_number (c # r) = Some (s, rest)"
    by (simp split: if_splits) blast+
  then show ?thesis
  proof cases
    case str
    then show ?thesis using parse_chars_shorter by fastforce
  next
    case lit
    then show ?thesis by (rule parse_literal_shorter)
  next
    case num
    then show ?thesis by (rule parse_number_shorter)
  qed
qed

lemma enoughD:
  "enough f n \<Longrightarrow> f n cs = Some (v, rest) \<Longrightarrow> length rest < length cs"
  "enough f n \<Longrightarrow> f n cs = Some (v, rest) \<Longrightarrow> length cs - length rest \<le> m
     \<Longrightarrow> f m cs = Some (v, rest)"
  unfolding enough_def by blast+

lemma enough_value_step:
  assumes el: "enough parse_elements n" and me: "enough parse_members n"
  shows "enough parse_value (Suc n)"
  unfolding enough_def
proof (intro allI impI)
  fix cs v rest
  assume a: "parse_value (Suc n) cs = Some (v, rest)"
  then obtain c r where cs: "cs = c # r" by (cases cs) auto
  have goal: "length rest < length cs
      \<and> (\<forall>m. length cs - length rest \<le> m \<longrightarrow> parse_value m cs = Some (v, rest))"
    if short: "length rest < length cs"
      and step: "\<And>k. length r - length rest \<le> k \<Longrightarrow> parse_value (Suc k) cs = Some (v, rest)"
  proof (intro conjI allI impI)
    show "length rest < length cs" by (rule short)
    fix m assume m: "length cs - length rest \<le> m"
    with short cs obtain k where k: "m = Suc k" by (cases m) auto
    with m cs short have "length r - length rest \<le> k" by simp
    from step [OF this] k show "parse_value m cs = Some (v, rest)" by simp
  qed
  show "length rest < length cs
      \<and> (\<forall>m. length cs - length rest \<le> m \<longrightarrow> parse_value m cs = Some (v, rest))"
  proof (cases "c = CHR ''{''")
    case obj: True
    from a cs obj obtain c1 r1 where sk: "skip_ws r = c1 # r1"
      by (cases "skip_ws r") auto
    note len = skip_ws_Cons_length [OF sk]
    show ?thesis
    proof (cases "c1 = CHR ''}''")
      case True
      with a cs obj sk have "v = JObj []" "rest = r1" by simp_all
      with len cs obj sk True show ?thesis by (intro goal) simp_all
    next
      case False
      with a cs obj sk obtain ms where ms: "parse_members n (c1 # r1) = Some (ms, rest)"
        and v: "v = JObj ms" by auto
      from enoughD(1) [OF me ms] len have short: "length rest < length cs"
        using cs by simp
      show ?thesis
      proof (rule goal [OF short])
        fix k assume "length r - length rest \<le> k"
        with len have "length (c1 # r1) - length rest \<le> k" by simp
        from enoughD(2) [OF me ms this] cs obj sk False v
        show "parse_value (Suc k) cs = Some (v, rest)" by simp
      qed
    qed
  next
    case nobj: False
    show ?thesis
    proof (cases "c = CHR ''[''")
      case arr: True
      from a cs arr obtain c1 r1 where sk: "skip_ws r = c1 # r1"
        by (cases "skip_ws r") auto
      note len = skip_ws_Cons_length [OF sk]
      show ?thesis
      proof (cases "c1 = CHR '']''")
        case True
        with a cs arr sk have "v = JArr []" "rest = r1" by simp_all
        with len cs arr sk True show ?thesis by (intro goal) simp_all
      next
        case False
        with a cs arr sk obtain vs where vs: "parse_elements n (c1 # r1) = Some (vs, rest)"
          and v: "v = JArr vs" by auto
        from enoughD(1) [OF el vs] len have short: "length rest < length cs"
          using cs by simp
        show ?thesis
        proof (rule goal [OF short])
          fix k assume "length r - length rest \<le> k"
          with len have "length (c1 # r1) - length rest \<le> k" by simp
          from enoughD(2) [OF el vs this] cs arr sk False v
          show "parse_value (Suc k) cs = Some (v, rest)" by simp
        qed
      qed
    next
      case narr: False
      from a cs have a': "parse_value (Suc n) (c # r) = Some (v, rest)" by simp
      from parse_value_scalar_shorter [OF nobj narr a'] cs
      have short: "length rest < length cs" by simp
      show ?thesis
      proof (rule goal [OF short])
        fix k
        from a' parse_value_scalar [OF nobj narr, of n r k] cs
        show "parse_value (Suc k) cs = Some (v, rest)" by simp
      qed
    qed
  qed
qed

lemma enough_elements_step:
  assumes va: "enough parse_value n" and el: "enough parse_elements n"
  shows "enough parse_elements (Suc n)"
  unfolding enough_def
proof (intro allI impI)
  fix cs vs rest
  assume a: "parse_elements (Suc n) cs = Some (vs, rest)"
  then obtain v r where pv: "parse_value n cs = Some (v, r)"
    by (auto split: option.splits)
  with a obtain c r1 where sk: "skip_ws r = c # r1"
    by (cases "skip_ws r") auto
  note l1 = enoughD(1) [OF va pv] and l2 = skip_ws_Cons_length [OF sk]
  have goal: "length rest < length cs
      \<and> (\<forall>m. length cs - length rest \<le> m \<longrightarrow> parse_elements m cs = Some (vs, rest))"
    if short: "Suc (length rest) \<le> length r"
      and step: "\<And>k. length cs - Suc (length rest) \<le> k \<Longrightarrow>
                   parse_elements (Suc k) cs = Some (vs, rest)"
  proof (intro conjI allI impI)
    from short l1 show lt: "length rest < length cs" by simp
    fix m assume m: "length cs - length rest \<le> m"
    with lt obtain k where k: "m = Suc k" by (cases m) auto
    with m lt have "length cs - Suc (length rest) \<le> k" by simp
    from step [OF this] k show "parse_elements m cs = Some (vs, rest)" by simp
  qed
  show "length rest < length cs
      \<and> (\<forall>m. length cs - length rest \<le> m \<longrightarrow> parse_elements m cs = Some (vs, rest))"
  proof (cases "c = CHR '',''")
    case True
    with a pv sk obtain vs' where pe: "parse_elements n (skip_ws r1) = Some (vs', rest)"
      and vs: "vs = v # vs'"
      by (auto dest!: cons_fst_Some)
    note l3 = enoughD(1) [OF el pe] and l4 = skip_ws_length [of r1]
    show ?thesis
    proof (rule goal)
      from l2 l3 l4 show "Suc (length rest) \<le> length r" by simp
    next
      fix k assume k: "length cs - Suc (length rest) \<le> k"
      with l1 l2 l3 l4 have "length cs - length r \<le> k" by simp
      from enoughD(2) [OF va pv this] have 1: "parse_value k cs = Some (v, r)" .
      from k l1 l2 l3 l4 have "length (skip_ws r1) - length rest \<le> k" by simp
      from enoughD(2) [OF el pe this] have 2: "parse_elements k (skip_ws r1) = Some (vs', rest)" .
      from 1 2 sk True vs show "parse_elements (Suc k) cs = Some (vs, rest)"
        by (simp add: cons_fst_def)
    qed
  next
    case False
    with a pv sk have cl: "c = CHR '']''" and vs: "vs = [v]" and rest: "rest = r1"
      by (auto split: if_splits)
    show ?thesis
    proof (rule goal)
      from l2 rest show "Suc (length rest) \<le> length r" by simp
    next
      fix k assume k: "length cs - Suc (length rest) \<le> k"
      with l1 l2 rest have "length cs - length r \<le> k" by simp
      from enoughD(2) [OF va pv this] have 1: "parse_value k cs = Some (v, r)" .
      from 1 sk cl vs rest show "parse_elements (Suc k) cs = Some (vs, rest)" by simp
    qed
  qed
qed

lemma enough_members_step:
  assumes va: "enough parse_value n" and me: "enough parse_members n"
  shows "enough parse_members (Suc n)"
  unfolding enough_def
proof (intro allI impI)
  fix cs ms rest
  assume a: "parse_members (Suc n) cs = Some (ms, rest)"
  then obtain c r where cs: "cs = c # r" and c: "c = dquote"
    by (cases cs) (auto split: if_splits)
  with a obtain key r1 where pk: "parse_chars r = Some (key, r1)"
    by (auto split: option.splits)
  with a cs c obtain c2 r2 where sk1: "skip_ws r1 = c2 # r2" and c2: "c2 = CHR '':''"
    by (cases "skip_ws r1") (auto split: if_splits)
  with a cs c pk obtain v r3 where pv: "parse_value n (skip_ws r2) = Some (v, r3)"
    by (auto split: option.splits)
  with a cs c pk sk1 c2 obtain c4 r4 where sk3: "skip_ws r3 = c4 # r4"
    by (cases "skip_ws r3") auto
  note l0 = parse_chars_shorter [OF pk] and l1 = skip_ws_Cons_length [OF sk1]
    and l2 = skip_ws_length [of r2] and l3 = enoughD(1) [OF va pv]
    and l4 = skip_ws_Cons_length [OF sk3]
  have unfold: "parse_members (Suc k) cs =
      (case parse_value k (skip_ws r2) of
         None \<Rightarrow> None
       | Some (v, r3) \<Rightarrow>
           (case skip_ws r3 of
              [] \<Rightarrow> None
            | c4 # r4 \<Rightarrow>
                if c4 = CHR '','' then cons_fst (key, v) (parse_members k (skip_ws r4))
                else if c4 = CHR ''}'' then Some ([(key, v)], r4)
                else None))" for k
    using cs c pk sk1 c2 by simp
  have goal: "length rest < length cs
      \<and> (\<forall>m. length cs - length rest \<le> m \<longrightarrow> parse_members m cs = Some (ms, rest))"
    if short: "Suc (length rest) \<le> length r3"
      and step: "\<And>k. length cs - Suc (length rest) \<le> k \<Longrightarrow>
                   parse_members (Suc k) cs = Some (ms, rest)"
  proof (intro conjI allI impI)
    from short l0 l1 l2 l3 cs show lt: "length rest < length cs" by simp
    fix m assume m: "length cs - length rest \<le> m"
    with lt obtain k where k: "m = Suc k" by (cases m) auto
    with m lt have "length cs - Suc (length rest) \<le> k" by simp
    from step [OF this] k show "parse_members m cs = Some (ms, rest)" by simp
  qed
  show "length rest < length cs
      \<and> (\<forall>m. length cs - length rest \<le> m \<longrightarrow> parse_members m cs = Some (ms, rest))"
  proof (cases "c4 = CHR '',''")
    case True
    with a pv sk3 obtain ms' where pm: "parse_members n (skip_ws r4) = Some (ms', rest)"
      and ms: "ms = (key, v) # ms'"
      unfolding unfold by (auto dest!: cons_fst_Some)
    note l5 = enoughD(1) [OF me pm] and l6 = skip_ws_length [of r4]
    show ?thesis
    proof (rule goal)
      from l4 l5 l6 show "Suc (length rest) \<le> length r3" by simp
    next
      fix k assume k: "length cs - Suc (length rest) \<le> k"
      with l0 l1 l2 l3 l4 l5 l6 cs have "length (skip_ws r2) - length r3 \<le> k" by simp
      from enoughD(2) [OF va pv this] have 1: "parse_value k (skip_ws r2) = Some (v, r3)" .
      from k l0 l1 l2 l3 l4 l5 l6 cs have "length (skip_ws r4) - length rest \<le> k" by simp
      from enoughD(2) [OF me pm this] have 2: "parse_members k (skip_ws r4) = Some (ms', rest)" .
      from 1 2 sk3 True ms show "parse_members (Suc k) cs = Some (ms, rest)"
        unfolding unfold by (simp add: cons_fst_def)
    qed
  next
    case False
    with a pv sk3 have cl: "c4 = CHR ''}''" and ms: "ms = [(key, v)]" and rest: "rest = r4"
      unfolding unfold by (auto split: if_splits)
    show ?thesis
    proof (rule goal)
      from l4 rest show "Suc (length rest) \<le> length r3" by simp
    next
      fix k assume k: "length cs - Suc (length rest) \<le> k"
      with l0 l1 l2 l3 l4 rest cs have "length (skip_ws r2) - length r3 \<le> k" by simp
      from enoughD(2) [OF va pv this] have 1: "parse_value k (skip_ws r2) = Some (v, r3)" .
      from 1 sk3 cl ms rest show "parse_members (Suc k) cs = Some (ms, rest)"
        unfolding unfold by simp
    qed
  qed
qed

lemma enough_all:
  "enough parse_value n \<and> enough parse_elements n \<and> enough parse_members n"
proof (induction n)
  case 0
  show ?case by (simp add: enough_def)
next
  case (Suc n)
  then show ?case
    by (intro conjI enough_value_step enough_elements_step enough_members_step) simp_all
qed

lemma JSON_parse_fuel:
  assumes "parse_value n (skip_ws s) = Some (v, rest)"
  shows "parse_value (Suc (length s)) (skip_ws s) = Some (v, rest)"
proof -
  have e: "enough parse_value n" using enough_all by blast
  have "length (skip_ws s) - length rest \<le> Suc (length s)"
    using skip_ws_length [of s] by simp
  from enoughD(2) [OF e assms this] show ?thesis .
qed

lemma JSON_parse_None_iff:
  "JSON_parse s = None
     \<longleftrightarrow> (\<forall>n v rest. parse_value n (skip_ws s) = Some (v, rest) \<longrightarrow> skip_ws rest \<noteq> [])"
proof
  assume none: "JSON_parse s = None"
  show "\<forall>n v rest. parse_value n (skip_ws s) = Some (v, rest) \<longrightarrow> skip_ws rest \<noteq> []"
  proof (intro allI impI)
    fix n v rest
    assume "parse_value n (skip_ws s) = Some (v, rest)"
    then have "parse_value (Suc (length s)) (skip_ws s) = Some (v, rest)"
      by (rule JSON_parse_fuel)
    with none show "skip_ws rest \<noteq> []"
      by (auto simp: JSON_parse_def split: if_splits)
  qed
next
  assume "\<forall>n v rest. parse_value n (skip_ws s) = Some (v, rest) \<longrightarrow> skip_ws rest \<noteq> []"
  then have "\<And>v rest. parse_value (Suc (length s)) (skip_ws s) = Some (v, rest)
                \<Longrightarrow> skip_ws rest \<noteq> []"
    by blast
  then show "JSON_parse s = None"
    unfolding JSON_parse_def
    by (cases "parse_value (Suc (length s)) (skip_ws s)") (auto simp del: parse_value.simps)
qed

section \<open>Summarising a session twice\<close>

lemma summarize_sid:
  "currentSessionId (snd (knowledge_summarize_session w summary decisions files ctx st))
     = Some (ensure_session_id w (currentSessionId st))"
  by (simp add: knowledge_summarize_session_def Let_def)

lemma summarize_sessions:
  "sessions (db (snd (knowledge_summarize_session w summary decisions files ctx st)))
     = sessions (upsert_session (w_now w) (ensure_session_id w (currentSessionId st))
          (projPath_of w ctx) summary decisions files
          (JSON_stringify (JObj [(''summary'', JStr summary), (''decisions'', JStr decisions)]))
          (db st))"
  by (simp add: knowledge_summarize_session_def Let_def)

lemma ensure_session_id_nonempty:
  "w_uuid w \<noteq> [] \<Longrightarrow> ensure_session_id w cur \<noteq> []"
  by (cases cur) (auto simp: ensure_session_id_def)

lemma ensure_session_id_again:
  "sid \<noteq> [] \<Longrightarrow> ensure_session_id w (Some sid) = sid"
  by (simp add: ensure_session_id_def)

lemma update_keeps_ids:
  "map s_id (map (\<lambda>s. if s_id s = sid
                 then s\<lparr>s_summary := a, s_key_decisions := b, s_files_modified := c\<rparr>
                 else s) xs) = map s_id xs"
  by (induction xs) auto

lemma upsert_has_id:
  "sid \<in> set (map s_id (sessions (upsert_session now sid p sm dc fl cx d)))"
proof (cases "sid \<in> set (map s_id (sessions d))")
  case True
  then show ?thesis
    using update_keeps_ids [where sid = sid and a = "Some sm" and b = "Some dc" and c = "Some fl"
        and xs = "sessions d"]
    by (simp add: upsert_session_def del: set_map map_map)
next
  case False
  then show ?thesis by (simp add: upsert_session_def)
qed

lemma upsert_existing:
  "sid \<in> set (map s_id (sessions d)) \<Longrightarrow>
   sessions (upsert_session now sid p sm dc fl cx d)
     = map (\<lambda>s. if s_id s = sid
                 then s\<lparr>s_summary := Some sm, s_key_decisions := Some dc, s_files_modified := Some fl\<rparr>
                 else s) (sessions d)"
  by (simp add: upsert_session_def)

lemma filter_project_update:
  "filter (\<lambda>s. s_project_path s = p)
     (map (\<lambda>s. if s_id s = sid
                 then s\<lparr>s_summary := a, s_key_decisions := b, s_files_modified := c\<rparr>
                 else s) xs)
   = map (\<lambda>s. if s_id s = sid
                 then s\<lparr>s_summary := a, s_key_decisions := b, s_files_modified := c\<rparr>
                 else s) (filter (\<lambda>s. s_project_path s = p) xs)"
  by (induction xs) auto

lemma find_updated:
  "sid \<in> set (map s_id xs) \<Longrightarrow>
   \<exists>r. find (\<lambda>s. s_id s = sid) xs = Some r
      \<and> find (\<lambda>s. s_id s = sid)
          (map (\<lambda>s. if s_id s = sid
                 then s\<lparr>s_summary := a, s_key_decisions := b, s_files_modified := c\<rparr>
                 else s) xs)
        = Some (r\<lparr>s_summary := a, s_key_decisions := b, s_files_modified := c\<rparr>)"
  by (induction xs) auto

text \<open>
  C5.  Two \<open>knowledge_summarize_session\<close> calls in a row run under one session id
  (the second finds the id the first left in \<open>currentSessionId\<close>).  The second call
  adds no session row, for any project, and afterwards the row of that id holds
  the second call's summary, decisions and files.  The id \<open>uuidv4()\<close> returns is
  not the empty string.
\<close>

theorem summarize_twice_upserts:
  assumes "w_uuid w1 \<noteq> []"
  shows "\<exists>sid row.
           currentSessionId (snd (knowledge_summarize_session w1 s1 d1 f1 ctx1 st)) = Some sid
         \<and> currentSessionId (snd (knowledge_summarize_session w2 s2 d2 f2 ctx2
               (snd (knowledge_summarize_session w1 s1 d1 f1 ctx1 st)))) = Some sid
         \<and> (\<forall>p. length (filter (\<lambda>s. s_project_path s = p)
                    (sessions (db (snd (knowledge_summarize_session w2 s2 d2 f2 ctx2
                       (snd (knowledge_summarize_session w1 s1 d1 f1 ctx1 st)))))))
                = length (filter (\<lambda>s. s_project_path s = p)
                    (sessions (db (snd (knowledge_summarize_session w1 s1 d1 f1 ctx1 st))))))
         \<and> find (\<lambda>s. s_id s = sid)
              (sessions (db (snd (knowledge_summarize_session w2 s2 d2 f2 ctx2
                 (snd (knowledge_summarize_session w1 s1 d1 f1 ctx1 st)))))) = Some row
         \<and> s_summary row = Some s2 \<and> s_key_decisions row = Some d2
         \<and> s_files_modified row = Some f2"
proof -
  let ?st1 = "snd (knowledge_summarize_session w1 s1 d1 f1 ctx1 st)"
  let ?st2 = "snd (knowledge_summarize_session w2 s2 d2 f2 ctx2 ?st1)"
  let ?sid = "ensure_session_id w1 (currentSessionId st)"
  let ?upd = "\<lambda>s. if s_id s = ?sid
                 then s\<lparr>s_summary := Some s2, s_key_decisions := Some d2, s_files_modified := Some f2\<rparr>
                 else s"
  have ne: "?sid \<noteq> []" using assms by (rule ensure_session_id_nonempty)
  have c1: "currentSessionId ?st1 = Some ?sid" by (rule summarize_sid)
  have c2: "currentSessionId ?st2 = Some ?sid"
    by (simp add: summarize_sid [of w2] c1 ensure_session_id_again [OF ne])
  have mem: "?sid \<in> set (map s_id (sessions (db ?st1)))"
    unfolding summarize_sessions by (rule upsert_has_id)
  have s2: "sessions (db ?st2) = map ?upd (sessions (db ?st1))"
    unfolding summarize_sessions [of w2] c1 ensure_session_id_again [OF ne]
    using mem by (rule upsert_existing)
  have cnt: "\<forall>p. length (filter (\<lambda>s. s_project_path s = p) (sessions (db ?st2)))
                = length (filter (\<lambda>s. s_project_path s = p) (sessions (db ?st1)))"
    unfolding s2 filter_project_update by simp
  from find_updated [OF mem, where a = "Some s2" and b = "Some d2" and c = "Some f2"] obtain r where
    "find (\<lambda>s. s_id s = ?sid) (sessions (db ?st2))
       = Some (r\<lparr>s_summary := Some s2, s_key_decisions := Some d2, s_files_modified := Some f2\<rparr>)"
    unfolding s2 by blast
  with c1 c2 cnt show ?thesis by force
qed

theorem summarize_twice_upserts_witness:
  "w_uuid (world_at uuid1 100) \<noteq> []
   \<and> (\<exists>sid row.
           currentSessionId (snd (knowledge_summarize_session (world_at uuid1 100)
              ''first'' ''d1'' ''[]'' ctx0 empty_plugin)) = Some sid
         \<and> currentSessionId (snd (knowledge_summarize_session (world_at uuid2 101)
              ''second'' ''d2'' ''[1]'' ctx0
               (snd (knowledge_summarize_session (world_at uuid1 100)
                  ''first'' ''d1'' ''[]'' ctx0 empty_plugin)))) = Some sid
         \<and> (\<forall>p. length (filter (\<lambda>s. s_project_path s = p)
                    (sessions (db (snd (knowledge_summarize_session (world_at uuid2 101)
                       ''second'' ''d2'' ''[1]'' ctx0
                       (snd (knowledge_summarize_session (world_at uuid1 100)
                          ''first'' ''d1'' ''[]'' ctx0 empty_plugin)))))))
                = length (filter (\<lambda>s. s_project_path s = p)
                    (sessions (db (snd (knowledge_summarize_session (world_at uuid1 100)
                       ''first'' ''d1'' ''[]'' ctx0 empty_plugin))))))
         \<and> find (\<lambda>s. s_id s = sid)
              (sessions (db (snd (knowledge_summarize_session (world_at uuid2 101)
                 ''second'' ''d2'' ''[1]'' ctx0
                 (snd (knowledge_summarize_session (world_at uuid1 100)
                    ''first'' ''d1'' ''[]'' ctx0 empty_plugin)))))) = Some row
         \<and> s_summary row = Some ''second'' \<and> s_key_decisions row = Some ''d2''
         \<and> s_files_modified row = Some ''[1]'')"
proof -
  have h: "w_uuid (world_at uuid1 100) \<noteq> []"
    by (simp add: world_at_def uuid1_def)
  from h summarize_twice_upserts [OF h, of "''first''" "''d1''" "''[]''" ctx0 empty_plugin
      "world_at uuid2 101" "''second''" "''d2''" "''[1]''" ctx0]
  show ?thesis by blast
qed

lemma find_last_row:
  "sid \<notin> set (map s_id ys) \<Longrightarrow> s_id r = sid \<Longrightarrow> find (\<lambda>s. s_id s = sid) (ys @ [r]) = Some r"
  by (induction ys) auto

lemma end_time_keeps_absent:
  "x \<notin> set (map s_id xs) \<Longrightarrow>
   x \<notin> set (map s_id (map (\<lambda>s. if s_id s = sid then s\<lparr>s_end_time := t\<rparr> else s) xs))"
  by (induction xs) auto

lemma update_keeps_absent:
  "x \<notin> set (map s_id xs) \<Longrightarrow>
   x \<notin> set (map s_id (map (\<lambda>s. if s_id s = sid
                 then s\<lparr>s_summary := a, s_key_decisions := b, s_files_modified := c\<rparr>
                 else s) xs))"
  by (induction xs) auto

lemma upsert_new:
  "sid \<notin> set (map s_id (sessions d)) \<Longrightarrow>
   sessions (upsert_session now sid p sm dc fl cx d)
     = sessions d @
         [\<lparr>s_id = sid, s_project_path = p, s_start_time = now, s_end_time = None,
           s_summary = Some sm, s_key_decisions = Some dc, s_files_modified = Some fl,
           s_context = Some cx\<rparr>]"
  by (simp add: upsert_session_def)

lemma stringify_two_strings_nonempty:
  "JSON_stringify (JObj [(k1, JStr a), (k2, JStr b)]) \<noteq> []"
  by (simp add: stringify_two_strings)

lemma deleted_reads_context:
  assumes "currentSessionId st = Some sid" and "sid \<noteq> []"
    and "sessions (db st) = ys @ [r]" and "sid \<notin> set (map s_id ys)" and "s_id r = sid"
    and "s_context r = Some cx" and "cx \<noteq> []"
    and "JSON_parse cx = Some (JObj [(''summary'', JStr a), (''decisions'', JStr b)])"
  shows "fst (session_deleted w output st)
           = output\<lparr>o_summary := Some (JStr a), o_decisions := Some (JStr b)\<rparr>"
proof -
  let ?et = "\<lambda>s. if s_id s = sid then s\<lparr>s_end_time := Some (w_now w)\<rparr> else s"
  have m: "map ?et (sessions (db st)) = map ?et ys @ [r\<lparr>s_end_time := Some (w_now w)\<rparr>]"
    using assms(3,5) by simp
  have n: "sid \<notin> set (map s_id (map ?et ys))"
    using assms(4) by (rule end_time_keeps_absent)
  have i: "s_id (r\<lparr>s_end_time := Some (w_now w)\<rparr>) = sid"
    using assms(5) by simp
  have f: "find (\<lambda>s. s_id s = sid) (map ?et (sessions (db st)))
      = Some (r\<lparr>s_end_time := Some (w_now w)\<rparr>)"
    unfolding m using n i by (rule find_last_row)
  show ?thesis
    using assms(1,2,6,7,8)
    by (simp add: session_deleted_def Let_def f)
qed

text \<open>
  C6.  The upsert does not touch \<open>context\<close>.  When the first of two
  \<open>knowledge_summarize_session\<close> calls creates the session row, then after the
  second call the row holds the second summary and decisions, while its
  \<open>context\<close> is still the JSON text of the first call's summary and decisions, and
  the session-deleted handler writes the first call's summary and decisions to
  its output.
\<close>

theorem context_keeps_first_summary:
  assumes "w_uuid w1 \<noteq> []"
    and "ensure_session_id w1 (currentSessionId st) \<notin> set (map s_id (sessions (db st)))"
  shows "\<exists>sid row.
           currentSessionId (snd (knowledge_summarize_session w2 s2 d2 f2 ctx2
               (snd (knowledge_summarize_session w1 s1 d1 f1 ctx1 st)))) = Some sid
         \<and> find (\<lambda>s. s_id s = sid)
              (sessions (db (snd (knowledge_summarize_session w2 s2 d2 f2 ctx2
                 (snd (knowledge_summarize_session w1 s1 d1 f1 ctx1 st)))))) = Some row
         \<and> s_summary row = Some s2 \<and> s_key_decisions row = Some d2
         \<and> s_context row
              = Some (JSON_stringify (JObj [(''summary'', JStr s1), (''decisions'', JStr d1)]))
         \<and> fst (session_deleted w3 output
                 (snd (knowledge_summarize_session w2 s2 d2 f2 ctx2
                    (snd (knowledge_summarize_session w1 s1 d1 f1 ctx1 st)))))
             = output\<lparr>o_summary := Some (JStr s1), o_decisions := Some (JStr d1)\<rparr>"
proof -
  let ?st1 = "snd (knowledge_summarize_session w1 s1 d1 f1 ctx1 st)"
  let ?st2 = "snd (knowledge_summarize_session w2 s2 d2 f2 ctx2 ?st1)"
  let ?sid = "ensure_session_id w1 (currentSessionId st)"
  let ?cx = "JSON_stringify (JObj [(''summary'', JStr s1), (''decisions'', JStr d1)])"
  let ?upd = "\<lambda>s. if s_id s = ?sid
                 then s\<lparr>s_summary := Some s2, s_key_decisions := Some d2, s_files_modified := Some f2\<rparr>
                 else s"
  let ?row1 = "\<lparr>s_id = ?sid, s_project_path = projPath_of w1 ctx1, s_start_time = w_now w1,
                s_end_time = None, s_summary = Some s1, s_key_decisions = Some d1,
                s_files_modified = Some f1, s_context = Some ?cx\<rparr>"
  let ?row2 = "?row1\<lparr>s_summary := Some s2, s_key_decisions := Some d2, s_files_modified := Some f2\<rparr>"
  have ne: "?sid \<noteq> []" using assms(1) by (rule ensure_session_id_nonempty)
  have c1: "currentSessionId ?st1 = Some ?sid" by (rule summarize_sid)
  have c2: "currentSessionId ?st2 = Some ?sid"
    by (simp add: summarize_sid [of w2] c1 ensure_session_id_again [OF ne])
  have s1: "sessions (db ?st1) = sessions (db st) @ [?row1]"
    unfolding summarize_sessions using assms(2) by (rule upsert_new)
  have mem: "?sid \<in> set (map s_id (sessions (db ?st1)))"
    unfolding s1 by simp
  have "sessions (db ?st2) = map ?upd (sessions (db ?st1))"
    unfolding summarize_sessions [of w2] c1 ensure_session_id_again [OF ne]
    using mem by (rule upsert_existing)
  then have s2: "sessions (db ?st2) = map ?upd (sessions (db st)) @ [?row2]"
    unfolding s1 by simp
  have old: "?sid \<notin> set (map s_id (map ?upd (sessions (db st))))"
    using assms(2) by (rule update_keeps_absent)
  have f: "find (\<lambda>s. s_id s = ?sid) (sessions (db ?st2)) = Some ?row2"
    unfolding s2 using old by (rule find_last_row) simp
  have del: "fst (session_deleted w3 output ?st2)
               = output\<lparr>o_summary := Some (JStr s1), o_decisions := Some (JStr d1)\<rparr>"
    using c2 ne s2 old
  proof (rule deleted_reads_context)
    show "s_id ?row2 = ?sid" by simp
    show "s_context ?row2 = Some ?cx" by simp
    show "?cx \<noteq> []" by (rule stringify_two_strings_nonempty)
    show "JSON_parse ?cx = Some (JObj [(''summary'', JStr s1), (''decisions'', JStr d1)])"
      by (rule JSON_parse_two_strings)
  qed
  have r2: "s_summary ?row2 = Some s2" "s_key_decisions ?row2 = Some d2" "s_context ?row2 = Some ?cx"
    by simp_all
  from c2 f del r2 show ?thesis by blast
qed

theorem context_keeps_first_summary_witness:
  "w_uuid (world_at uuid1 100) \<noteq> []
   \<and> ensure_session_id (world_at uuid1 100) (currentSessionId empty_plugin)
        \<notin> set (map s_id (sessions (db empty_plugin)))
   \<and> fst (session_deleted (world_at uuid3 102) \<lparr>o_summary = None, o_decisions = None\<rparr>
           (snd (knowledge_summarize_session (world_at uuid2 101) ''second'' ''d2'' ''[1]'' ctx0
              (snd (knowledge_summarize_session (world_at uuid1 100) ''first'' ''d1'' ''[]'' ctx0
                 empty_plugin)))))
       = \<lparr>o_summary = Some (JStr ''first''), o_decisions = Some (JStr ''d1'')\<rparr>"
proof -
  have a: "w_uuid (world_at uuid1 100) \<noteq> []"
    by (simp add: world_at_def uuid1_def)
  have b: "ensure_session_id (world_at uuid1 100) (currentSessionId empty_plugin)
        \<notin> set (map s_id (sessions (db empty_plugin)))"
    by (simp add: empty_plugin_def)
  from context_keeps_first_summary [OF a b, of "world_at uuid2 101" "''second''" "''d2''" "''[1]''" ctx0
      "''first''" "''d1''" "''[]''" ctx0 "world_at uuid3 102" "\<lparr>o_summary = None, o_decisions = None\<rparr>"]
  have "fst (session_deleted (world_at uuid3 102) \<lparr>o_summary = None, o_decisions = None\<rparr>
           (snd (knowledge_summarize_session (world_at uuid2 101) ''second'' ''d2'' ''[1]'' ctx0
              (snd (knowledge_summarize_session (world_at uuid1 100) ''first'' ''d1'' ''[]'' ctx0
                 empty_plugin)))))
       = \<lparr>o_summary = None, o_decisions = None\<rparr>\<lparr>o_summary := Some (JStr ''first''), o_decisions := Some (JStr ''d1'')\<rparr>"
    by blast
  with a b show ?thesis by simp
qed

section \<open>Search\<close>

lemma like_percent: "like_match (CHR ''%'' # p) s = (\<exists>i\<le>length s. like_match p (drop i s))"
proof (induction s)
  case Nil
  show ?case by simp
next
  case (Cons c cs)
  have "(\<exists>i\<le>length (c # cs). like_match p (drop i (c # cs)))
        = (like_match p (c # cs) \<or> (\<exists>j\<le>length cs. like_match p (drop j cs)))"
  proof
    assume "\<exists>i\<le>length (c # cs). like_match p (drop i (c # cs))"
    then obtain i where i: "i \<le> length (c # cs)" "like_match p (drop i (c # cs))" by blast
    show "like_match p (c # cs) \<or> (\<exists>j\<le>length cs. like_match p (drop j cs))"
    proof (cases i)
      case 0
      with i show ?thesis by simp
    next
      case (Suc j)
      with i have "j \<le> length cs" "like_match p (drop j cs)" by simp_all
      then show ?thesis by blast
    qed
  next
    assume "like_match p (c # cs) \<or> (\<exists>j\<le>length cs. like_match p (drop j cs))"
    then show "\<exists>i\<le>length (c # cs). like_match p (drop i (c # cs))"
    proof
      assume "like_match p (c # cs)"
      then have "0 \<le> length (c # cs) \<and> like_match p (drop 0 (c # cs))" by simp
      then show ?thesis by blast
    next
      assume "\<exists>j\<le>length cs. like_match p (drop j cs)"
      then obtain j where "j \<le> length cs" "like_match p (drop j cs)" by blast
      then have "Suc j \<le> length (c # cs) \<and> like_match p (drop (Suc j) (c # cs))" by simp
      then show ?thesis by blast
    qed
  qed
  with Cons.IH show ?case by simp
qed

lemma like_only_percent: "like_match [CHR ''%''] s"
  by (induction s) simp_all

lemma like_literal:
  "wildcard_free q \<Longrightarrow>
   like_match (q @ p) s = (ci_prefix q s \<and> like_match p (drop (length q) s))"
proof (induction q arbitrary: s)
  case Nil
  show ?case by simp
next
  case (Cons a q)
  then have a: "a \<noteq> CHR ''%''" "a \<noteq> CHR ''_''" and q: "wildcard_free q"
    by (auto simp: wildcard_free_def)
  show ?case
  proof (cases s)
    case Nil
    with a show ?thesis by simp
  next
    case (Cons c cs)
    with a Cons.IH [OF q, of cs] show ?thesis by auto
  qed
qed

lemma ci_substring_drop: "ci_substring q s = (\<exists>i\<le>length s. ci_prefix q (drop i s))"
proof (induction s)
  case Nil
  show ?case by (cases q) simp_all
next
  case (Cons c cs)
  have "(\<exists>i\<le>length (c # cs). ci_prefix q (drop i (c # cs)))
        = (ci_prefix q (c # cs) \<or> (\<exists>j\<le>length cs. ci_prefix q (drop j cs)))"
  proof
    assume "\<exists>i\<le>length (c # cs). ci_prefix q (drop i (c # cs))"
    then obtain i where i: "i \<le> length (c # cs)" "ci_prefix q (drop i (c # cs))" by blast
    show "ci_prefix q (c # cs) \<or> (\<exists>j\<le>length cs. ci_prefix q (drop j cs))"
    proof (cases i)
      case 0
      with i show ?thesis by simp
    next
      case (Suc j)
      with i have "j \<le> length cs" "ci_prefix q (drop j cs)" by simp_all
      then show ?thesis by blast
    qed
  next
    assume "ci_prefix q (c # cs) \<or> (\<exists>j\<le>length cs. ci_prefix q (drop j cs))"
    then show "\<exists>i\<le>length (c # cs). ci_prefix q (drop i (c # cs))"
    proof
      assume "ci_prefix q (c # cs)"
      then have "0 \<le> length (c # cs) \<and> ci_prefix q (drop 0 (c # cs))" by simp
      then show ?thesis by blast
    next
      assume "\<exists>j\<le>length cs. ci_prefix q (drop j cs)"
      then obtain j where "j \<le> length cs" "ci_prefix q (drop j cs)" by blast
      then have "Suc j \<le> length (c # cs) \<and> ci_prefix q (drop (Suc j) (c # cs))" by simp
      then show ?thesis by blast
    qed
  qed
  with Cons.IH show ?case by simp
qed

lemma like_is_substring:
  assumes "wildcard_free q"
  shows "like_match (''%'' @ q @ ''%'') s = ci_substring q s"
proof -
  have "like_match (''%'' @ q @ ''%'') s = (\<exists>i\<le>length s. like_match (q @ [CHR ''%'']) (drop i s))"
    using like_percent [of "q @ [CHR ''%'']" s] by simp
  also have "\<dots> = (\<exists>i\<le>length s. ci_prefix q (drop i s))"
    by (simp only: like_literal [OF assms] like_only_percent simp_thms)
  also have "\<dots> = ci_substring q s"
    by (rule ci_substring_drop [symmetric])
  finally show ?thesis .
qed

lemma order_by_desc_sorted:
  "sorted_wrt (\<lambda>a b. key b \<le> key a) (order_by_desc key xs)"
proof -
  have "sorted (map (\<lambda>x. - int (key x)) (sort_key (\<lambda>x. - int (key x)) xs))"
    by (rule sorted_sort_key)
  then show ?thesis
    by (simp add: order_by_desc_def sorted_map)
qed

lemma order_by_desc_set: "set (order_by_desc key xs) = set xs"
  by (simp add: order_by_desc_def)

lemma limit_rows_sorted: "sorted_wrt R xs \<Longrightarrow> sorted_wrt R (limit_rows n xs)"
  by (simp add: limit_rows_def sorted_wrt_take)

lemma limit_rows_set: "set (limit_rows n xs) \<subseteq> set xs"
  by (auto simp: limit_rows_def dest: in_set_takeD)

lemma limit_rows_length: "0 \<le> n \<Longrightarrow> int (length (limit_rows n xs)) \<le> n"
  by (simp add: limit_rows_def)

lemma ci_prefix_append: "ci_prefix q xs \<Longrightarrow> ci_prefix q (xs @ ys)"
  by (induction q xs rule: ci_prefix.induct) simp_all

lemma ci_substring_empty: "ci_substring [] s"
  by (cases s) simp_all

lemma ci_substring_append: "ci_substring q xs \<Longrightarrow> ci_substring q (xs @ ys)"
proof (induction xs)
  case Nil
  then show ?case by (simp add: ci_substring_empty)
next
  case (Cons c cs)
  from Cons.prems have "ci_prefix q (c # cs) \<or> ci_substring q cs" by simp
  then show ?case
  proof
    assume "ci_prefix q (c # cs)"
    then have "ci_prefix q ((c # cs) @ ys)" by (rule ci_prefix_append)
    then show ?thesis by simp
  next
    assume "ci_substring q cs"
    then have "ci_substring q (cs @ ys)" by (rule Cons.IH)
    then show ?thesis by simp
  qed
qed

lemma ci_substring_c_string: "ci_substring q (c_string s) \<Longrightarrow> ci_substring q s"
proof -
  assume "ci_substring q (c_string s)"
  then have "ci_substring q (c_string s @ dropWhile (\<lambda>c. c \<noteq> CHR 0x00) s)"
    by (rule ci_substring_append)
  then show ?thesis by (simp add: c_string_def)
qed

lemma c_string_pattern:
  "CHR 0x00 \<notin> set q \<Longrightarrow> c_string (''%'' @ q @ ''%'') = ''%'' @ q @ ''%''"
  by (auto simp: c_string_def takeWhile_eq_all_conv)

lemma like_text_substring:
  assumes "wildcard_free q" and "CHR 0x00 \<notin> set q"
    and "like_text (''%'' @ q @ ''%'') (Some s)"
  shows "ci_substring q s"
proof -
  from assms(3) have "like_match (''%'' @ q @ ''%'') (c_string s)"
    by (simp only: like_text.simps c_string_pattern [OF assms(2)])
  then have "ci_substring q (c_string s)"
    by (simp only: like_is_substring [OF assms(1)])
  then show ?thesis by (rule ci_substring_c_string)
qed

text \<open>
  C8, amended.  With a limit that SQLite accepts and that is not negative, and a
  pattern \<open>%query%\<close> within the length \<open>LIKE\<close> allows, \<open>knowledge_search\<close> returns rows
  ordered by \<open>updated\<close> descending, at most \<open>limit\<close> of them; each comes from an
  entity of the project whose name or content matches the \<open>LIKE\<close> pattern
  \<open>%query%\<close> and whose type is the filter when a non-empty filter is given, with
  its content cut to 500 characters.  For a query without \<open>%\<close>, \<open>_\<close> and NUL such
  a row holds the query as a substring, letters compared without case, of its
  name or of its content.
\<close>

theorem search_results:
  assumes "bind_limit (default_limit limit) = Inr n" and "0 \<le> n"
    and "utf8_bytes (''%'' @ query @ ''%'') \<le> like_pattern_limit"
  shows "\<exists>res. knowledge_search w query type limit ctx st = (Inr res, st)
     \<and> sq_count res = length (sq_results res)
     \<and> sorted_wrt (\<lambda>a b. sr_updated b \<le> sr_updated a) (sq_results res)
     \<and> int (length (sq_results res)) \<le> n
     \<and> (\<forall>r \<in> set (sq_results res).
           (\<forall>c. sr_content r = Some c \<longrightarrow> length c \<le> 500)
         \<and> (\<exists>e \<in> set (entities (db st)).
               r = search_row_of e
             \<and> e_project_path e = projPath_of w ctx
             \<and> (like_text (''%'' @ query @ ''%'') (Some (e_name e))
                  \<or> like_text (''%'' @ query @ ''%'') (e_content e))
             \<and> (truthy type \<longrightarrow> Some (e_type e) = type)
             \<and> (wildcard_free query \<and> CHR 0x00 \<notin> set query \<longrightarrow>
                   ci_substring query (e_name e)
                   \<or> (\<exists>c. e_content e = Some c \<and> ci_substring query c))))"
proof -
  let ?p = "projPath_of w ctx"
  let ?pat = "''%'' @ query @ ''%''"
  let ?rows = "limit_rows n
                 (order_by_desc e_updated_at
                    (filter (search_matches ?p ?pat type) (entities (db st))))"
  let ?res = "\<lparr>sq_query = query, sq_count = length ?rows, sq_results = map search_row_of ?rows\<rparr>"
  have run: "knowledge_search w query type limit ctx st = (Inr ?res, st)"
    using assms(1,3) by (rule search_run)
  have "sorted_wrt (\<lambda>a b. e_updated_at b \<le> e_updated_at a) ?rows"
    by (intro limit_rows_sorted order_by_desc_sorted)
  then have srt: "sorted_wrt (\<lambda>a b. sr_updated b \<le> sr_updated a) (map search_row_of ?rows)"
    by (simp add: sorted_wrt_map search_row_of_def)
  have len: "int (length (map search_row_of ?rows)) \<le> n"
    using limit_rows_length [OF assms(2)] by simp
  have sub: "set ?rows \<subseteq> set (filter (search_matches ?p ?pat type) (entities (db st)))"
  proof -
    have "set ?rows \<subseteq> set (order_by_desc e_updated_at
                    (filter (search_matches ?p ?pat type) (entities (db st))))"
      by (rule limit_rows_set)
    then show ?thesis by (simp only: order_by_desc_set)
  qed
  have each: "(\<forall>c. sr_content r = Some c \<longrightarrow> length c \<le> 500)
         \<and> (\<exists>e \<in> set (entities (db st)).
               r = search_row_of e
             \<and> e_project_path e = ?p
             \<and> (like_text ?pat (Some (e_name e)) \<or> like_text ?pat (e_content e))
             \<and> (truthy type \<longrightarrow> Some (e_type e) = type)
             \<and> (wildcard_free query \<and> CHR 0x00 \<notin> set query \<longrightarrow>
                   ci_substring query (e_name e)
                   \<or> (\<exists>c. e_content e = Some c \<and> ci_substring query c)))"
    if "r \<in> set (map search_row_of ?rows)" for r
  proof -
    from that obtain e where e: "e \<in> set ?rows" "r = search_row_of e"
      unfolding set_map by (rule imageE)
    from e(1) sub have "e \<in> set (filter (search_matches ?p ?pat type) (entities (db st)))"
      by (rule subsetD [rotated])
    then have ent: "e \<in> set (entities (db st))" and wh: "search_matches ?p ?pat type e"
      by simp_all
    have trunc: "\<forall>c. sr_content r = Some c \<longrightarrow> length c \<le> 500"
      using e(2) by (auto simp: search_row_of_def)
    have m: "like_text ?pat (Some (e_name e)) \<or> like_text ?pat (e_content e)"
      and pp: "e_project_path e = ?p"
      and ty: "truthy type \<longrightarrow> Some (e_type e) = type"
      using wh unfolding search_matches_def by (auto split: if_splits)
    have sp: "ci_substring query (e_name e) \<or> (\<exists>c. e_content e = Some c \<and> ci_substring query c)"
      if wf: "wildcard_free query" and nn: "CHR 0x00 \<notin> set query"
      using m
    proof
      assume "like_text ?pat (Some (e_name e))"
      with wf nn have "ci_substring query (e_name e)" by (rule like_text_substring)
      then show ?thesis ..
    next
      assume c: "like_text ?pat (e_content e)"
      then obtain c' where c': "e_content e = Some c'"
        by (cases "e_content e") (simp_all only: like_text.simps)
      with c have "like_text ?pat (Some c')" by simp
      with wf nn have "ci_substring query c'" by (rule like_text_substring)
      with c' show ?thesis by blast
    qed
    from ent e(2) trunc m pp ty sp show ?thesis by blast
  qed
  have cnt: "sq_count ?res = length (sq_results ?res)" by simp
  have res: "sq_results ?res = map search_row_of ?rows" by simp
  show ?thesis
  proof (intro exI [of _ ?res] conjI ballI)
    show "knowledge_search w query type limit ctx st = (Inr ?res, st)" by (rule run)
    show "sq_count ?res = length (sq_results ?res)" by (rule cnt)
    show "sorted_wrt (\<lambda>a b. sr_updated b \<le> sr_updated a) (sq_results ?res)"
      unfolding res by (rule srt)
    show "int (length (sq_results ?res)) \<le> n"
      unfolding res by (rule len)
  next
    fix r assume "r \<in> set (sq_results ?res)"
    then have r: "r \<in> set (map search_row_of ?rows)" unfolding res .
    from each [OF r] show "\<forall>c. sr_content r = Some c \<longrightarrow> length c \<le> 500" by (rule conjunct1)
    from each [OF r] show "\<exists>e \<in> set (entities (db st)).
               r = search_row_of e
             \<and> e_project_path e = projPath_of w ctx
             \<and> (like_text (''%'' @ query @ ''%'') (Some (e_name e))
                  \<or> like_text (''%'' @ query @ ''%'') (e_content e))
             \<and> (truthy type \<longrightarrow> Some (e_type e) = type)
             \<and> (wildcard_free query \<and> CHR 0x00 \<notin> set query \<longrightarrow>
                   ci_substring query (e_name e)
                   \<or> (\<exists>c. e_content e = Some c \<and> ci_substring query c))" by (rule conjunct2)
  qed
qed

theorem search_results_witness:
  "bind_limit (default_limit None) = Inr 10 \<and> (0::int) \<le> 10
   \<and> utf8_bytes (''%'' @ ''user'' @ ''%'') \<le> like_pattern_limit
   \<and> wildcard_free ''user'' \<and> CHR 0x00 \<notin> set ''user'' \<and> truthy (Some ''component'')
   \<and> (\<exists>res. knowledge_search (world_at uuid3 102) ''user'' (Some ''component'') None ctx0 two_components
               = (Inr res, two_components)
        \<and> sorted_wrt (\<lambda>a b. sr_updated b \<le> sr_updated a) (sq_results res)
        \<and> int (length (sq_results res)) \<le> 10
        \<and> (\<forall>r \<in> set (sq_results res).
              (\<forall>c. sr_content r = Some c \<longrightarrow> length c \<le> 500)
            \<and> (\<exists>e \<in> set (entities (db two_components)).
                  r = search_row_of e
                \<and> Some (e_type e) = Some ''component''
                \<and> (ci_substring ''user'' (e_name e)
                     \<or> (\<exists>c. e_content e = Some c \<and> ci_substring ''user'' c)))))"
proof -
  have a: "bind_limit (default_limit None) = Inr 10" by simp
  have a': "(0::int) \<le> 10" by simp
  have p: "utf8_bytes (''%'' @ ''user'' @ ''%'') \<le> like_pattern_limit"
    by (simp add: utf8_bytes_def like_pattern_limit_def)
  have b: "wildcard_free ''user''" by (simp add: wildcard_free_def)
  have b': "CHR 0x00 \<notin> set ''user''" by simp
  have c: "truthy (Some ''component'')" by simp
  from search_results [OF a a' p, of "world_at uuid3 102" "Some ''component''" ctx0 two_components]
  obtain res where res:
    "knowledge_search (world_at uuid3 102) ''user'' (Some ''component'') None ctx0 two_components
       = (Inr res, two_components)"
    "sorted_wrt (\<lambda>a b. sr_updated b \<le> sr_updated a) (sq_results res)"
    "int (length (sq_results res)) \<le> 10"
    "\<forall>r \<in> set (sq_results res).
           (\<forall>c. sr_content r = Some c \<longrightarrow> length c \<le> 500)
         \<and> (\<exists>e \<in> set (entities (db two_components)).
               r = search_row_of e
             \<and> e_project_path e = projPath_of (world_at uuid3 102) ctx0
             \<and> (like_text (''%'' @ ''user'' @ ''%'') (Some (e_name e))
                  \<or> like_text (''%'' @ ''user'' @ ''%'') (e_content e))
             \<and> (truthy (Some ''component'') \<longrightarrow> Some (e_type e) = Some ''component'')
             \<and> (wildcard_free ''user'' \<and> CHR 0x00 \<notin> set ''user'' \<longrightarrow>
                   ci_substring ''user'' (e_name e)
                   \<or> (\<exists>c. e_content e = Some c \<and> ci_substring ''user'' c)))"
    by blast
  from res(4) b b' c have
    "\<forall>r \<in> set (sq_results res).
           (\<forall>c. sr_content r = Some c \<longrightarrow> length c \<le> 500)
         \<and> (\<exists>e \<in> set (entities (db two_components)).
               r = search_row_of e
             \<and> Some (e_type e) = Some ''component''
             \<and> (ci_substring ''user'' (e_name e)
                   \<or> (\<exists>c. e_content e = Some c \<and> ci_substring ''user'' c)))"
    by blast
  with a a' p b b' c res(1,2,3) show ?thesis by blast
qed

text \<open>
  C8, as stated: every result is to contain the query as a substring and the
  results are to number at most \<open>limit\<close>.  The query \<open>_\<close> with limit \<open>-1\<close> returns
  both entities of the example: 2 rows against a limit of \<open>-1\<close>, and neither name nor
  content of either contains an underscore.
\<close>

theorem search_wildcard_negative_limit:
  "fst (knowledge_search (world_at uuid3 102) ''_'' None (Some (JsInt (- 1))) ctx0 two_components)
     = Inr \<lparr>sq_query = ''_'', sq_count = 2,
            sq_results =
              [\<lparr>sr_id = uuid2, sr_type = ''component'', sr_name = ''Database'',
                sr_content = Some ''Postgres store'', sr_updated = 101\<rparr>,
               \<lparr>sr_id = uuid1, sr_type = ''component'', sr_name = ''UserService'',
                sr_content = Some ''Handles auth'', sr_updated = 100\<rparr>]\<rparr>
   \<and> \<not> int 2 \<le> - 1
   \<and> \<not> ci_substring ''_'' ''Database'' \<and> \<not> ci_substring ''_'' ''Postgres store''
   \<and> \<not> ci_substring ''_'' ''UserService'' \<and> \<not> ci_substring ''_'' ''Handles auth''"
proof -
  have l: "bind_limit (default_limit (Some (JsInt (- 1)))) = Inr (- 1)" by simp
  have p: "utf8_bytes (''%'' @ ''_'' @ ''%'') \<le> like_pattern_limit"
    by (simp add: utf8_bytes_def like_pattern_limit_def)
  have 1: "fst (knowledge_search (world_at uuid3 102) ''_'' None (Some (JsInt (- 1))) ctx0 two_components)
     = Inr \<lparr>sq_query = ''_'', sq_count = 2,
            sq_results =
              [\<lparr>sr_id = uuid2, sr_type = ''component'', sr_name = ''Database'',
                sr_content = Some ''Postgres store'', sr_updated = 101\<rparr>,
               \<lparr>sr_id = uuid1, sr_type = ''component'', sr_name = ''UserService'',
                sr_content = Some ''Handles auth'', sr_updated = 100\<rparr>]\<rparr>"
    unfolding search_run [OF l p]
    by (simp add: two_components_eq projPath_ctx0 search_matches_def c_string_def
        order_by_desc_def limit_rows_def search_row_of_def)
  have 2: "\<not> ci_substring ''_'' ''Database''" "\<not> ci_substring ''_'' ''Postgres store''"
    "\<not> ci_substring ''_'' ''UserService''" "\<not> ci_substring ''_'' ''Handles auth''"
    by code_simp+
  from 1 2 show ?thesis by simp
qed

section \<open>Listing sessions\<close>

lemma filesModified_of_unparsable:
  "unparsable s \<Longrightarrow> filesModified_of (s_files_modified s) = Inl SyntaxError"
  by (cases "s_files_modified s") (auto simp: filesModified_of_def unparsable_def)

lemma filesModified_of_parsable:
  "\<not> unparsable s \<Longrightarrow> \<exists>v. filesModified_of (s_files_modified s) = Inr v"
  by (cases "s_files_modified s") (auto simp: filesModified_of_def unparsable_def)

lemma session_row_of_unparsable:
  "unparsable s \<Longrightarrow> session_row_of s = Inl SyntaxError"
  by (simp add: session_row_of_def filesModified_of_unparsable)

lemma session_row_of_parsable:
  "\<not> unparsable s \<Longrightarrow> \<exists>r. session_row_of s = Inr r"
  using filesModified_of_parsable [of s] by (auto simp: session_row_of_def)

lemma map_throwing_session_rows:
  "(\<exists>s \<in> set xs. unparsable s) \<longrightarrow> map_throwing session_row_of xs = Inl SyntaxError"
  "\<not> (\<exists>s \<in> set xs. unparsable s) \<longrightarrow>
     (\<exists>rs. map_throwing session_row_of xs = Inr rs \<and> length rs = length xs)"
proof (induction xs)
  case Nil
  {
    case 1
    show ?case by simp
  next
    case 2
    show ?case by simp
  }
next
  case (Cons x xs)
  {
    case 1
    show ?case
    proof (cases "unparsable x")
      case True
      then show ?thesis by (simp add: session_row_of_unparsable)
    next
      case False
      then obtain r where "session_row_of x = Inr r"
        using session_row_of_parsable by blast
      with False Cons.IH(1) show ?thesis by (auto split: sum.splits)
    qed
  next
    case 2
    show ?case
    proof (cases "unparsable x")
      case True
      then show ?thesis by simp
    next
      case False
      then obtain r where "session_row_of x = Inr r"
        using session_row_of_parsable by blast
      with False Cons.IH(2) show ?thesis by (auto split: sum.splits)
    qed
  }
qed

lemma select_sessions_bound:
  "bind_limit l = Inr n \<Longrightarrow> select_sessions d p l = Inr (selected_sessions d p n)"
  by (simp add: select_sessions_def sql_limit_def selected_sessions_def)

lemma sessions_limit_mismatch:
  "bind_limit (default_limit limit) = Inl err \<Longrightarrow>
   knowledge_sessions w limit ctx st = (Inl err, st)"
  by (simp add: knowledge_sessions_def select_sessions_def sql_limit_def)

text \<open>
  C10, amended.  With a limit that SQLite accepts, \<open>knowledge_sessions\<close> parses the
  \<open>files_modified\<close> of the rows it selects, the \<open>limit\<close> most recent of the project,
  and of those only the non-empty ones.  It throws a \<open>SyntaxError\<close>, leaving the
  state as it was, when one of the selected rows holds a non-empty text that is
  not JSON, and returns a payload with one entry for each selected row otherwise.
\<close>

theorem sessions_raise_on_selected_row:
  assumes "bind_limit (default_limit limit) = Inr n"
  shows
  "((\<exists>s \<in> set (selected_sessions (db st) (projPath_of w ctx) n). unparsable s)
      \<longrightarrow> knowledge_sessions w limit ctx st = (Inl SyntaxError, st))
   \<and> (\<not> (\<exists>s \<in> set (selected_sessions (db st) (projPath_of w ctx) n). unparsable s)
      \<longrightarrow> (\<exists>res. knowledge_sessions w limit ctx st = (Inr res, st)
             \<and> sl_count res = length (selected_sessions (db st) (projPath_of w ctx) n)
             \<and> length (sl_sessions res) = sl_count res))"
  using map_throwing_session_rows [of "selected_sessions (db st) (projPath_of w ctx) n"]
  by (auto simp: knowledge_sessions_def Let_def select_sessions_bound [OF assms])

lemma empty_files_eq:
  "empty_files =
     \<lparr>db = \<lparr>entities = [], relationships = [],
             sessions = [\<lparr>s_id = uuid1, s_project_path = ''/proj'', s_start_time = 100,
                          s_end_time = None, s_summary = Some ''s'', s_key_decisions = Some ''d'',
                          s_files_modified = Some [],
                          s_context = Some (JSON_stringify
                            (JObj [(''summary'', JStr ''s''), (''decisions'', JStr ''d'')]))\<rparr>]\<rparr>,
      projectPath = ''/proj'', currentSessionId = Some uuid1\<rparr>"
  by (simp add: empty_files_def knowledge_summarize_session_def upsert_session_def
      ensure_session_id_def projPath_ctx0 empty_plugin_def Let_def del: JSON_stringify.simps)
    (simp add: world_at_def)

lemma two_sessions_eq:
  "two_sessions =
     \<lparr>db = \<lparr>entities = [], relationships = [],
             sessions = [\<lparr>s_id = uuid1, s_project_path = ''/proj'', s_start_time = 100,
                          s_end_time = None, s_summary = Some ''earlier'',
                          s_key_decisions = Some ''d1'', s_files_modified = Some ''auth.ts'',
                          s_context = Some (JSON_stringify
                            (JObj [(''summary'', JStr ''earlier''), (''decisions'', JStr ''d1'')]))\<rparr>,
                         \<lparr>s_id = uuid2, s_project_path = ''/proj'', s_start_time = 200,
                          s_end_time = None, s_summary = Some ''later'',
                          s_key_decisions = Some ''d2'', s_files_modified = Some good_files,
                          s_context = Some (JSON_stringify
                            (JObj [(''summary'', JStr ''later''), (''decisions'', JStr ''d2'')]))\<rparr>]\<rparr>,
      projectPath = ''/proj'', currentSessionId = Some uuid2\<rparr>"
  by (simp add: two_sessions_def knowledge_summarize_session_def upsert_session_def
      ensure_session_id_def projPath_ctx0 empty_plugin_def Let_def del: JSON_stringify.simps)
    (simp add: world_at_def uuid1_def uuid2_def)

lemma parse_examples:
  "JSON_parse [] = None" "JSON_parse ''auth.ts'' = None"
  "JSON_parse good_files = Some (JArr [JStr ''b.ts''])"
  unfolding good_files_def by code_simp+

lemma select_two_sessions:
  "selected_sessions (db two_sessions) ''/proj'' 1
     = [\<lparr>s_id = uuid2, s_project_path = ''/proj'', s_start_time = 200,
         s_end_time = None, s_summary = Some ''later'',
         s_key_decisions = Some ''d2'', s_files_modified = Some good_files,
         s_context = Some (JSON_stringify
           (JObj [(''summary'', JStr ''later''), (''decisions'', JStr ''d2'')]))\<rparr>]"
  "selected_sessions (db two_sessions) ''/proj'' 10
     = [\<lparr>s_id = uuid2, s_project_path = ''/proj'', s_start_time = 200,
         s_end_time = None, s_summary = Some ''later'',
         s_key_decisions = Some ''d2'', s_files_modified = Some good_files,
         s_context = Some (JSON_stringify
           (JObj [(''summary'', JStr ''later''), (''decisions'', JStr ''d2'')]))\<rparr>,
        \<lparr>s_id = uuid1, s_project_path = ''/proj'', s_start_time = 100,
         s_end_time = None, s_summary = Some ''earlier'',
         s_key_decisions = Some ''d1'', s_files_modified = Some ''auth.ts'',
         s_context = Some (JSON_stringify
           (JObj [(''summary'', JStr ''earlier''), (''decisions'', JStr ''d1'')]))\<rparr>]"
  by (simp_all add: two_sessions_eq selected_sessions_def order_by_desc_def limit_rows_def
      del: JSON_stringify.simps)

text \<open>
  C10, as stated: one session row of the project with a files string that is not
  valid JSON is to make every listing raise.  A row with the empty string, which
  \<open>JSON.parse\<close> refuses, is listed with \<open>filesModified = []\<close>; and with \<open>auth.ts\<close>
  stored for the earlier of two sessions, a listing with limit 1 returns the
  later session.
\<close>

theorem sessions_return_despite_bad_files:
  "map s_files_modified (sessions (db empty_files)) = [Some []]
   \<and> JSON_parse [] = None
   \<and> fst (knowledge_sessions (world_at uuid3 300) None ctx0 empty_files)
       = Inr \<lparr>sl_count = 1,
              sl_sessions = [\<lparr>ss_id = uuid1, ss_startTime = 100, ss_endTime = None,
                              ss_summary = Some ''s'', ss_keyDecisions = Some ''d'',
                              ss_filesModified = JArr []\<rparr>]\<rparr>
   \<and> map s_files_modified (sessions (db two_sessions)) = [Some ''auth.ts'', Some good_files]
   \<and> JSON_parse ''auth.ts'' = None
   \<and> fst (knowledge_sessions (world_at uuid3 300) (Some (JsInt 1)) ctx0 two_sessions)
       = Inr \<lparr>sl_count = 1,
              sl_sessions = [\<lparr>ss_id = uuid2, ss_startTime = 200, ss_endTime = None,
                              ss_summary = Some ''later'', ss_keyDecisions = Some ''d2'',
                              ss_filesModified = JArr [JStr ''b.ts'']\<rparr>]\<rparr>"
proof -
  have 1: "map s_files_modified (sessions (db empty_files)) = [Some []]"
    by (simp add: empty_files_eq del: JSON_stringify.simps)
  have 2: "fst (knowledge_sessions (world_at uuid3 300) None ctx0 empty_files)
       = Inr \<lparr>sl_count = 1,
              sl_sessions = [\<lparr>ss_id = uuid1, ss_startTime = 100, ss_endTime = None,
                              ss_summary = Some ''s'', ss_keyDecisions = Some ''d'',
                              ss_filesModified = JArr []\<rparr>]\<rparr>"
    by (simp add: empty_files_eq knowledge_sessions_def select_sessions_def order_by_desc_def
        sql_limit_def limit_rows_def projPath_ctx0 session_row_of_def filesModified_of_def Let_def
        del: JSON_stringify.simps)
  have 3: "map s_files_modified (sessions (db two_sessions)) = [Some ''auth.ts'', Some good_files]"
    by (simp add: two_sessions_eq del: JSON_stringify.simps)
  have ne: "good_files \<noteq> []" by (simp add: good_files_def)
  have 4: "fst (knowledge_sessions (world_at uuid3 300) (Some (JsInt 1)) ctx0 two_sessions)
       = Inr \<lparr>sl_count = 1,
              sl_sessions = [\<lparr>ss_id = uuid2, ss_startTime = 200, ss_endTime = None,
                              ss_summary = Some ''later'', ss_keyDecisions = Some ''d2'',
                              ss_filesModified = JArr [JStr ''b.ts'']\<rparr>]\<rparr>"
    using ne
    by (simp add: knowledge_sessions_def select_sessions_bound [of "JsInt 1" 1]
        select_two_sessions projPath_ctx0 Let_def
        session_row_of_def filesModified_of_def parse_examples del: JSON_stringify.simps)
  from 1 2 3 4 parse_examples(1,2) show ?thesis by blast
qed

theorem sessions_raise_on_selected_row_witness:
  "bind_limit (default_limit None) = Inr 10
   \<and> (\<exists>s \<in> set (selected_sessions (db two_sessions) (projPath_of (world_at uuid3 300) ctx0) 10).
         unparsable s)
   \<and> knowledge_sessions (world_at uuid3 300) None ctx0 two_sessions = (Inl SyntaxError, two_sessions)"
proof -
  have l: "bind_limit (default_limit None) = Inr 10" by simp
  have h: "\<exists>s \<in> set (selected_sessions (db two_sessions) (projPath_of (world_at uuid3 300) ctx0) 10).
             unparsable s"
    by (simp add: projPath_ctx0 select_two_sessions unparsable_def parse_examples
        del: JSON_stringify.simps)
  from l h sessions_raise_on_selected_row [OF l, of two_sessions "world_at uuid3 300" ctx0]
  show ?thesis by blast
qed

end
